theory Spec2Isabelle
  imports Main "HOL-Library.Word" "HOL-Library.Multiset" "HOL-Library.AList" "HOL-Library.Sublist"
begin

section \<open>The in-memory log storage of Trillian (storage/memory/log\_storage.go)\<close>

subsection \<open>Data model\<close>

text \<open>
  Byte slices are lists of 8-bit words. Go's \<^verbatim>\<open>int64\<close> and \<^verbatim>\<open>int\<close> are integers; the
  two places where the source adds to an \<^verbatim>\<open>int64\<close> that may be at its upper end
  (\<^verbatim>\<open>start+i\<close> in GetLeavesByRange, \<^verbatim>\<open>rev + 1\<close> in beginInternal) wrap with \<open>wrap64\<close>.
  The arguments \<^verbatim>\<open>start\<close> and \<^verbatim>\<open>count\<close> of GetLeavesByRange are 64-bit words, read as
  signed numbers. A \<^verbatim>\<open>uint64\<close> timestamp is a natural number; the source only compares
  and stores it.
\<close>

type_synonym bytes = "8 word list"

definition wrap64 :: "int \<Rightarrow> int" where
  "wrap64 x = (x + 2 ^ 63) mod 2 ^ 64 - 2 ^ 63"

text \<open>
  Modelled from the spec: the declaration of \<^verbatim>\<open>trillian.LogLeaf\<close> is not among the
  sources at hand; the fields are those of the Leaf of the data model (section 3), with
  the two timestamps in nanoseconds since the epoch.
\<close>

record LogLeaf =
  MerkleLeafHash :: bytes
  LeafValue :: bytes
  ExtraData :: bytes
  LeafIndex :: int
  LeafIdentityHash :: bytes
  QueueTimestamp :: int
  IntegrateTimestamp :: int

text \<open>
  Modelled from the spec: the declarations of \<^verbatim>\<open>trillian.SignedLogRoot\<close> and
  \<^verbatim>\<open>types.LogRootV1\<close> are not among the sources at hand; they are the opaque envelope
  and the structured body of the SignedLogRoot of section 3. The source reads the
  envelope's \<^verbatim>\<open>LogRoot\<close> bytes and the body's \<^verbatim>\<open>TimestampNanos\<close> only.
\<close>

record SignedLogRoot =
  LogRoot :: bytes
  LogRootSignature :: bytes

record LogRootV1 =
  TreeSize :: nat
  RootHash :: bytes
  TimestampNanos :: nat
  Revision :: nat

text \<open>
  Every error value the functions below return, and \<open>Panic\<close> for a Go run-time panic
  (a failed type assertion on what \<^verbatim>\<open>Get\<close> returned, \<^verbatim>\<open>make\<close> with a negative capacity,
  an index out of range). \<open>ErrQueuedHashLength n\<close> is
  "queued leaf must have a leaf ID hash of length n", \<open>ErrIncorrectHashSize got want\<close> is
  "sequenced leaf has incorrect hash size", \<open>ErrUnknownLeaves n\<close> is
  "attempted to update n unknown leaves", \<open>ErrUnmarshal\<close> is whatever
  \<^verbatim>\<open>UnmarshalBinary\<close> reports, \<open>ErrCallback\<close> an error of a caller's transaction body.
\<close>

datatype error =
    ErrTreeNeedsInit
  | ErrUnmarshal
  | ErrQueuedHashLength int
  | ErrIncorrectHashSize int int
  | ErrUnknownLeaves int
  | Unimplemented
  | ErrCallback
  | Panic

text \<open>
  The gRPC status of a queued leaf: a nil status pointer (\<open>None\<close>) is OK, the only other
  one the source builds is AlreadyExists.
\<close>

datatype status_code = AlreadyExists

record QueuedLogLeaf =
  Leaf :: LogLeaf
  Status :: "status_code option"

datatype TreeType = UNKNOWN_TREE_TYPE | LOG | PREORDERED_LOG

record Tree =
  TreeId :: int
  TreeType :: TreeType

text \<open>
  The keys of a tree's BTree store. The source formats them as strings
  (\<^verbatim>\<open>"/%d/unseq"\<close>, \<^verbatim>\<open>"/%d/seq/%020d"\<close>, \<^verbatim>\<open>"/%d/h2s"\<close>, \<^verbatim>\<open>"/%d/sth/%020d"\<close>,
  \<^verbatim>\<open>"/%d/rev/%020d"\<close>); the five formats have distinct texts after the tree ID and each is
  injective in its numbers, so a key is the format together with its numbers.
\<close>

datatype key =
    unseqKey int
  | seqLeafKey int int
  | hashToSeqKey int
  | sthKey int nat
  | revKey int nat

text \<open>
  The value of a \<^verbatim>\<open>kv\<close> item is an \<^verbatim>\<open>interface{}\<close>: the list of unsequenced leaves, a
  sequenced leaf, the map from Merkle hashes to sequence numbers, a signed log root or
  a revision number. The source reads each with a type assertion, which panics on any
  other kind of value and on a missing item.
\<close>

datatype val =
    VList "LogLeaf list"
  | VLeaf LogLeaf
  | VMap "bytes \<rightharpoonup> int list"
  | VSlr SignedLogRoot
  | VRev int

type_synonym btree = "key \<rightharpoonup> val"

text \<open>
  The shared \<^verbatim>\<open>tree\<close> object that \<^verbatim>\<open>t.tree\<close> points to: its committed store and the
  timestamp of its current STH. A transaction holds the tree's lock, so while it runs
  the object changes only through the transaction; the functions that touch it take it
  and return it beside the transaction.
\<close>

record tree =
  store :: btree
  currentSTH :: nat

text \<open>
  \<^verbatim>\<open>logTreeTX\<close> embeds \<^verbatim>\<open>treeTX\<close>, of which the fields this file uses are kept: \<open>tx\<close> is
  the transaction's own view of the store. The list and the map kept in the store
  are pointers that the source mutates in place; the model writes the changed value back
  under its key in \<open>tx\<close>. What is said below about the queue is said of the
  transaction's view and of the store that a commit installs. The subtree cache, the
  lock and the metrics counters are left out.
\<close>

record treeTX =
  tx :: btree
  treeID :: int
  hashSizeBytes :: int
  writeRevision :: int
  closed :: bool

record logTreeTX = treeTX +
  root :: LogRootV1
  slr :: "SignedLogRoot option"

subsection \<open>Operations of a log transaction\<close>

text \<open>
  Go's \<^verbatim>\<open>make([]T, 0, n)\<close> returns a slice only when \<open>n\<close> is not negative and the runtime can
  allocate \<open>n\<close> elements: on a negative \<open>n\<close> and beyond the runtime's bound it panics
  ("cap out of range"), and short of memory the process dies. The largest capacity
  that \<^verbatim>\<open>make\<close> grants at the call depends on the platform and is not in the sources: it is
  the argument \<open>maxCap\<close> of the two functions that call \<^verbatim>\<open>make\<close> with a capacity of the
  caller's, and every such failure is \<open>Panic\<close>.

  DequeueLeaves: after \<^verbatim>\<open>make\<close>, the loop walks the list from the
  front while \<^verbatim>\<open>i < limit\<close> and an element is left. The cutoff time is not read
  (\<^verbatim>\<open>TODO(al): consider cutoffTime\<close>), and nothing is removed from the list.
\<close>

fun DequeueLeaves_loop :: "int \<Rightarrow> int \<Rightarrow> LogLeaf list \<Rightarrow> LogLeaf list \<Rightarrow> LogLeaf list" where
  "DequeueLeaves_loop i limit [] leaves = leaves"
| "DequeueLeaves_loop i limit (e # rest) leaves =
     (if i < limit then DequeueLeaves_loop (i + 1) limit rest (leaves @ [e]) else leaves)"

definition DequeueLeaves :: "int \<Rightarrow> int \<Rightarrow> int \<Rightarrow> logTreeTX \<Rightarrow> error + LogLeaf list" where
  "DequeueLeaves maxCap limit cutoffTime t =
     (if limit < 0 \<or> maxCap < limit then Inl Panic
      else case tx t (unseqKey (treeID t)) of
             Some (VList q) \<Rightarrow> Inr (DequeueLeaves_loop 0 limit q [])
           | _ \<Rightarrow> Inl Panic)"

text \<open>
  QueueLeaves: the first loop returns at the first leaf whose identity hash has the
  wrong length, before anything is pushed; the second pushes every leaf to the back of
  the list ("No deduping in this storage!"); the result is a slice of
  \<^verbatim>\<open>len(leaves)\<close> nil pointers. The queue timestamp is not read.

  \<^verbatim>\<open>PushBack\<close> changes the list object in place. A committed store that holds the same
  object sees the pushed leaves at once, and keeps them when the transaction is closed
  without a commit; whether it does is decided by \<^verbatim>\<open>beginTreeTX\<close>, which is not among the
  sources at hand. The model gives the transaction's view only: it says nothing of the
  committed store of a transaction that pushed and was then closed without a commit.
\<close>

fun QueueLeaves_check :: "int \<Rightarrow> LogLeaf list \<Rightarrow> error option" where
  "QueueLeaves_check n [] = None"
| "QueueLeaves_check n (leaf # leaves) =
     (if int (length (LeafIdentityHash leaf)) \<noteq> n then Some (ErrQueuedHashLength n)
      else QueueLeaves_check n leaves)"

fun PushBack_all :: "LogLeaf list \<Rightarrow> LogLeaf list \<Rightarrow> LogLeaf list" where
  "PushBack_all q [] = q"
| "PushBack_all q (l # leaves) = PushBack_all (q @ [l]) leaves"

definition QueueLeaves ::
  "LogLeaf list \<Rightarrow> int \<Rightarrow> logTreeTX \<Rightarrow> (error + LogLeaf option list) \<times> logTreeTX" where
  "QueueLeaves leaves queueTimestamp t =
     (case QueueLeaves_check (hashSizeBytes t) leaves of
        Some err \<Rightarrow> (Inl err, t)
      | None \<Rightarrow>
          (case tx t (unseqKey (treeID t)) of
             Some (VList q) \<Rightarrow>
               (Inr (replicate (length leaves) None),
                t\<lparr>tx := (tx t)(unseqKey (treeID t) \<mapsto> VList (PushBack_all q leaves))\<rparr>)
           | _ \<Rightarrow> (Inl Panic, t)))"

text \<open>AddSequencedLeaves of a transaction: not implemented, whatever the arguments.\<close>

definition AddSequencedLeaves ::
  "LogLeaf list \<Rightarrow> int \<Rightarrow> logTreeTX \<Rightarrow> error + QueuedLogLeaf list" where
  "AddSequencedLeaves leaves timestamp t = Inl Unimplemented"

text \<open>
  GetLeavesByRange: \<^verbatim>\<open>make\<close> panics on a negative capacity and on one beyond \<open>maxCap\<close>; the
  loop looks at
  \<^verbatim>\<open>start+i\<close> for every \<^verbatim>\<open>i\<close> below \<^verbatim>\<open>count\<close> and appends the leaf when there is one.
  A missing index is passed over and the loop goes on.
\<close>

function GetLeavesByRange_loop ::
  "logTreeTX \<Rightarrow> int \<Rightarrow> int \<Rightarrow> int \<Rightarrow> LogLeaf list \<Rightarrow> error + LogLeaf list" where
  "GetLeavesByRange_loop t start cnt i ret =
     (if i < cnt then
        (case tx t (seqLeafKey (treeID t) (wrap64 (start + i))) of
           None \<Rightarrow> GetLeavesByRange_loop t start cnt (i + 1) ret
         | Some (VLeaf leaf) \<Rightarrow> GetLeavesByRange_loop t start cnt (i + 1) (ret @ [leaf])
         | Some _ \<Rightarrow> Inl Panic)
      else Inr ret)"
  by pat_completeness auto
termination
  by (relation "measure (\<lambda>(t, start, cnt, i, ret). nat (cnt - i))") auto

declare GetLeavesByRange_loop.simps [simp del]

definition GetLeavesByRange ::
  "int \<Rightarrow> 64 word \<Rightarrow> 64 word \<Rightarrow> logTreeTX \<Rightarrow> error + LogLeaf list" where
  "GetLeavesByRange maxCap start cnt t =
     (if sint cnt < 0 \<or> maxCap < sint cnt then Inl Panic
      else GetLeavesByRange_loop t (sint start) (sint cnt) 0 [])"

text \<open>
  GetLeavesByHash: for each hash, in the order given, the sequence numbers recorded
  under it in the map are looked up in the order recorded; a hash without an entry and
  a sequence number without a leaf are passed over. \<^verbatim>\<open>orderBySequence\<close> is not read.
\<close>

fun GetLeavesByHash_seq :: "logTreeTX \<Rightarrow> int list \<Rightarrow> LogLeaf list \<Rightarrow> error + LogLeaf list" where
  "GetLeavesByHash_seq t [] ret = Inr ret"
| "GetLeavesByHash_seq t (s # seq) ret =
     (case tx t (seqLeafKey (treeID t) s) of
        None \<Rightarrow> GetLeavesByHash_seq t seq ret
      | Some (VLeaf l) \<Rightarrow> GetLeavesByHash_seq t seq (ret @ [l])
      | Some _ \<Rightarrow> Inl Panic)"

fun GetLeavesByHash_loop ::
  "logTreeTX \<Rightarrow> (bytes \<rightharpoonup> int list) \<Rightarrow> bytes list \<Rightarrow> LogLeaf list \<Rightarrow> error + LogLeaf list" where
  "GetLeavesByHash_loop t m [] ret = Inr ret"
| "GetLeavesByHash_loop t m (hash # leafHashes) ret =
     (case m hash of
        None \<Rightarrow> GetLeavesByHash_loop t m leafHashes ret
      | Some seq \<Rightarrow>
          (case GetLeavesByHash_seq t seq ret of
             Inl err \<Rightarrow> Inl err
           | Inr ret' \<Rightarrow> GetLeavesByHash_loop t m leafHashes ret'))"

definition GetLeavesByHash :: "bytes list \<Rightarrow> bool \<Rightarrow> logTreeTX \<Rightarrow> error + LogLeaf list" where
  "GetLeavesByHash leafHashes orderBySequence t =
     (case tx t (hashToSeqKey (treeID t)) of
        Some (VMap m) \<Rightarrow> GetLeavesByHash_loop t m leafHashes []
      | _ \<Rightarrow> Inl Panic)"

text \<open>LatestSignedLogRoot returns the transaction's \<^verbatim>\<open>slr\<close> field and a nil error.\<close>

definition LatestSignedLogRoot :: "logTreeTX \<Rightarrow> SignedLogRoot option \<times> error option" where
  "LatestSignedLogRoot t = (slr t, None)"

text \<open>
  fetchLatestRoot reads the STH and the revision stored under the tree's current STH
  timestamp.
\<close>

definition fetchLatestRoot :: "logTreeTX \<Rightarrow> tree \<Rightarrow> error + SignedLogRoot \<times> int" where
  "fetchLatestRoot t tr =
     (case tx t (sthKey (treeID t) (currentSTH tr)) of
        None \<Rightarrow> Inl ErrTreeNeedsInit
      | Some (VSlr sth) \<Rightarrow>
          (case tx t (revKey (treeID t) (currentSTH tr)) of
             None \<Rightarrow> Inl ErrTreeNeedsInit
           | Some (VRev rv) \<Rightarrow> Inr (sth, rv)
           | Some _ \<Rightarrow> Inl Panic)
      | Some _ \<Rightarrow> Inl Panic)"

text \<open>
  StoreSignedLogRoot. \<^verbatim>\<open>UnmarshalBinary\<close> of \<^verbatim>\<open>types.LogRootV1\<close> is not among the
  sources at hand and is a parameter: it decodes the bytes or reports an error. The two
  \<^verbatim>\<open>ReplaceOrInsert\<close> calls write the transaction's view; the last statement writes
  \<^verbatim>\<open>t.tree.currentSTH\<close>, a field of the shared tree object, at once
  (\<^verbatim>\<open>TODO(alcutter): this breaks the transactional model\<close>).
\<close>

definition StoreSignedLogRoot ::
  "(bytes \<Rightarrow> error + LogRootV1) \<Rightarrow> SignedLogRoot \<Rightarrow> logTreeTX \<Rightarrow> tree
     \<Rightarrow> error option \<times> logTreeTX \<times> tree" where
  "StoreSignedLogRoot UnmarshalBinary signedRoot t tr =
     (case UnmarshalBinary (LogRoot signedRoot) of
        Inl err \<Rightarrow> (Some err, t, tr)
      | Inr r \<Rightarrow>
          (let t1 = t\<lparr>tx := (tx t)(sthKey (treeID t) (TimestampNanos r) \<mapsto> VSlr signedRoot)\<rparr>;
               t2 = t1\<lparr>tx := (tx t1)(revKey (treeID t1) (TimestampNanos r)
                                      \<mapsto> VRev (writeRevision t1))\<rparr>
           in (None, t2,
               if TimestampNanos r > currentSTH tr then tr\<lparr>currentSTH := TimestampNanos r\<rparr>
               else tr)))"

text \<open>
  UpdateSequencedLeaves. \<^verbatim>\<open>countByMerkleHash\<close> is a Go map from strings to \<^verbatim>\<open>int\<close>,
  here an association list with distinct keys, so that its \<^verbatim>\<open>len\<close> is the length; a key
  that is absent reads as 0.
\<close>

definition count_of :: "(bytes \<times> int) list \<Rightarrow> bytes \<Rightarrow> int" where
  "count_of m k = (case map_of m k of None \<Rightarrow> 0 | Some n \<Rightarrow> n)"

text \<open>
  The first loop: the hash-size check returns at once, leaving the leaves before the
  offending one written to the transaction; otherwise the leaf is counted, stored under
  its index (\<^verbatim>\<open>ReplaceOrInsert\<close>) and its index appended to the list of its Merkle hash.
\<close>

fun UpdateSequencedLeaves_insert ::
  "(bytes \<times> int) list \<Rightarrow> LogLeaf list \<Rightarrow> logTreeTX \<Rightarrow> (error + (bytes \<times> int) list) \<times> logTreeTX" where
  "UpdateSequencedLeaves_insert countByMerkleHash [] t = (Inr countByMerkleHash, t)"
| "UpdateSequencedLeaves_insert countByMerkleHash (leaf # leaves) t =
     (if int (length (LeafIdentityHash leaf)) \<noteq> hashSizeBytes t
      then (Inl (ErrIncorrectHashSize (int (length (LeafIdentityHash leaf))) (hashSizeBytes t)), t)
      else
        (let mh = MerkleLeafHash leaf;
             counted = AList.update mh (count_of countByMerkleHash mh + 1) countByMerkleHash;
             t1 = t\<lparr>tx := (tx t)(seqLeafKey (treeID t) (LeafIndex leaf) \<mapsto> VLeaf leaf)\<rparr>
         in case tx t1 (hashToSeqKey (treeID t1)) of
              Some (VMap m) \<Rightarrow>
                (let l = (case m mh of None \<Rightarrow> [] | Some l0 \<Rightarrow> l0) @ [LeafIndex leaf]
                 in UpdateSequencedLeaves_insert counted leaves
                      (t1\<lparr>tx := (tx t1)(hashToSeqKey (treeID t1) \<mapsto> VMap (m(mh \<mapsto> l)))\<rparr>))
            | _ \<Rightarrow> (Inl Panic, t1)))"

text \<open>
  The second loop walks the queue while counts are left. An element whose Merkle hash
  still has a positive count is appended to \<^verbatim>\<open>toRemove\<close> and the count goes down, the key
  being deleted at 0. The third loop unlinks the elements of \<^verbatim>\<open>toRemove\<close> from the list,
  which leaves the other elements in their order: the function returns \<^verbatim>\<open>toRemove\<close>, the
  list after the removals and the counts that are left.

  \<^verbatim>\<open>Remove\<close> and the write to the map of the first loop change the list and the map in
  place, as \<^verbatim>\<open>PushBack\<close> does: here too the model gives the transaction's view only, and
  says nothing of the committed store of a transaction that was then closed without a
  commit.
\<close>

fun UpdateSequencedLeaves_scan ::
  "(bytes \<times> int) list \<Rightarrow> LogLeaf list \<Rightarrow> LogLeaf list \<times> LogLeaf list \<times> (bytes \<times> int) list" where
  "UpdateSequencedLeaves_scan countByMerkleHash [] = ([], [], countByMerkleHash)"
| "UpdateSequencedLeaves_scan countByMerkleHash (e # rest) =
     (if length countByMerkleHash > 0 then
        (let mh = MerkleLeafHash e in
         if count_of countByMerkleHash mh > 0 then
           (let c1 = AList.update mh (count_of countByMerkleHash mh - 1) countByMerkleHash;
                c2 = (if count_of c1 mh = 0 then AList.delete mh c1 else c1)
            in case UpdateSequencedLeaves_scan c2 rest of
                 (toRemove, kept, left) \<Rightarrow> (e # toRemove, kept, left))
         else
           (case UpdateSequencedLeaves_scan countByMerkleHash rest of
              (toRemove, kept, left) \<Rightarrow> (toRemove, e # kept, left)))
      else ([], e # rest, countByMerkleHash))"

definition UpdateSequencedLeaves :: "LogLeaf list \<Rightarrow> logTreeTX \<Rightarrow> error option \<times> logTreeTX" where
  "UpdateSequencedLeaves leaves t =
     (case UpdateSequencedLeaves_insert [] leaves t of
        (Inl err, t1) \<Rightarrow> (Some err, t1)
      | (Inr countByMerkleHash, t1) \<Rightarrow>
          (case tx t1 (unseqKey (treeID t1)) of
             Some (VList q) \<Rightarrow>
               (case UpdateSequencedLeaves_scan countByMerkleHash q of
                  (toRemove, kept, left) \<Rightarrow>
                    (if length left \<noteq> 0 then Some (ErrUnknownLeaves (int (length left))) else None,
                     t1\<lparr>tx := (tx t1)(unseqKey (treeID t1) \<mapsto> VList kept)\<rparr>))
           | _ \<Rightarrow> (Some Panic, t1)))"

subsection \<open>Commit and Close\<close>

text \<open>
  Modelled from the spec: \<^verbatim>\<open>treeTX.Commit\<close> and \<^verbatim>\<open>treeTX.Close\<close> are not among the sources
  at hand. Section 4.7: commit persists the pending queue, sequenced-leaf,
  secondary-index and signed-root writes, that is the transaction's view becomes the
  tree's store; close without commit discards the staged state. Neither is said to
  touch the tree's current-STH timestamp. The subtree cache and the lock are left out.
\<close>

definition Commit :: "logTreeTX \<Rightarrow> tree \<Rightarrow> error option \<times> logTreeTX \<times> tree" where
  "Commit t tr = (None, t\<lparr>closed := True\<rparr>, tr\<lparr>store := tx t\<rparr>)"

definition Close :: "'a treeTX_scheme \<Rightarrow> tree \<Rightarrow> error option \<times> 'a treeTX_scheme \<times> tree" where
  "Close t tr = (if closed t then (None, t, tr) else (None, t\<lparr>closed := True\<rparr>, tr))"

subsection \<open>Operations of the storage\<close>

text \<open>
  beginInternal. The \<^verbatim>\<open>treeTX\<close> that \<^verbatim>\<open>beginTreeTX\<close> vends (not among the sources at hand)
  is the argument \<open>ttx\<close>. The new \<^verbatim>\<open>logTreeTX\<close> embeds it, with a zero \<^verbatim>\<open>root\<close> and a nil
  \<^verbatim>\<open>slr\<close>; then the latest root is fetched into \<^verbatim>\<open>slr\<close>. With \<^verbatim>\<open>ErrTreeNeedsInit\<close> both the
  transaction and the error are returned; with another error, or when the root does
  not unmarshal, the \<^verbatim>\<open>treeTX\<close> is closed and no transaction is returned.
\<close>

definition beginInternal ::
  "(bytes \<Rightarrow> error + LogRootV1) \<Rightarrow> treeTX \<Rightarrow> tree \<Rightarrow> logTreeTX option \<times> error option \<times> tree" where
  "beginInternal UnmarshalBinary ttx tr =
     (let ltx = \<lparr>tx = tx ttx, treeID = treeID ttx, hashSizeBytes = hashSizeBytes ttx,
                 writeRevision = writeRevision ttx, closed = closed ttx,
                 root = \<lparr>TreeSize = 0, RootHash = [], TimestampNanos = 0, Revision = 0\<rparr>,
                 slr = None\<rparr>
      in case fetchLatestRoot ltx tr of
           Inl err \<Rightarrow>
             (if err = ErrTreeNeedsInit then (Some ltx, Some err, tr)
              else (case Close ttx tr of (_, _, tr') \<Rightarrow> (None, Some err, tr')))
         | Inr (sth, rv) \<Rightarrow>
             (case UnmarshalBinary (LogRoot sth) of
                Inl err \<Rightarrow> (case Close ttx tr of (_, _, tr') \<Rightarrow> (None, Some err, tr'))
              | Inr r \<Rightarrow>
                  (Some (ltx\<lparr>slr := Some sth, root := r, writeRevision := wrap64 (rv + 1)\<rparr>),
                   None, tr)))"

text \<open>
  ReadWriteTransaction runs \<open>f\<close> in a transaction: an error of \<open>f\<close> is returned without
  a commit, and the deferred Close ends the transaction on every path. The tree returned
  after a close without commit is the code's for a body \<open>f\<close> that changed no list or map
  in place (see QueueLeaves and UpdateSequencedLeaves).
\<close>

definition ReadWriteTransaction ::
  "(bytes \<Rightarrow> error + LogRootV1) \<Rightarrow> treeTX \<Rightarrow> tree
     \<Rightarrow> (logTreeTX \<Rightarrow> tree \<Rightarrow> error option \<times> logTreeTX \<times> tree) \<Rightarrow> error option \<times> tree" where
  "ReadWriteTransaction UnmarshalBinary ttx tr f =
     (case beginInternal UnmarshalBinary ttx tr of
        (txo, err, tr0) \<Rightarrow>
          (if err \<noteq> None \<and> err \<noteq> Some ErrTreeNeedsInit then (err, tr0)
           else case txo of
                  None \<Rightarrow> (Some Panic, tr0)
                | Some t \<Rightarrow>
                    (case f t tr0 of
                       (Some e, t1, tr1) \<Rightarrow>
                         (case Close t1 tr1 of (_, _, tr2) \<Rightarrow> (Some e, tr2))
                     | (None, t1, tr1) \<Rightarrow>
                         (case Commit t1 tr1 of
                            (e, t2, tr2) \<Rightarrow> (case Close t2 tr2 of (_, _, tr3) \<Rightarrow> (e, tr3))))))"

text \<open>AddSequencedLeaves of the storage: not implemented, whatever the tree.\<close>

definition memoryLogStorage_AddSequencedLeaves ::
  "Tree \<Rightarrow> LogLeaf list \<Rightarrow> int \<Rightarrow> error + QueuedLogLeaf list" where
  "memoryLogStorage_AddSequencedLeaves tree leaves timestamp = Inl Unimplemented"

text \<open>
  QueueLeaves of the storage. The last loop fills the result: where the transaction
  reported an existing leaf, that leaf with status AlreadyExists; elsewhere the
  submitted leaf with a nil status. A result slot never written stays nil; writing past
  the end of \<^verbatim>\<open>ret\<close> or reading past the end of \<^verbatim>\<open>leaves\<close> panics.
\<close>

fun QueueLeaves_ret :: "LogLeaf option list \<Rightarrow> LogLeaf list \<Rightarrow> error + QueuedLogLeaf option list" where
  "QueueLeaves_ret [] leaves = Inr (map (\<lambda>_. None) leaves)"
| "QueueLeaves_ret (e # existing) [] = Inl Panic"
| "QueueLeaves_ret (e # existing) (leaf # leaves) =
     (case QueueLeaves_ret existing leaves of
        Inl err \<Rightarrow> Inl err
      | Inr ret \<Rightarrow>
          Inr (Some (case e of
                       Some x \<Rightarrow> \<lparr>Leaf = x, Status = Some AlreadyExists\<rparr>
                     | None \<Rightarrow> \<lparr>Leaf = leaf, Status = None\<rparr>) # ret))"

definition memoryLogStorage_QueueLeaves ::
  "(bytes \<Rightarrow> error + LogRootV1) \<Rightarrow> treeTX \<Rightarrow> tree \<Rightarrow> LogLeaf list \<Rightarrow> int
     \<Rightarrow> (error + QueuedLogLeaf option list) \<times> tree" where
  "memoryLogStorage_QueueLeaves UnmarshalBinary ttx tr leaves queueTimestamp =
     (case beginInternal UnmarshalBinary ttx tr of
        (Some t, Some err, tr0) \<Rightarrow> (case Close t tr0 of (_, _, tr1) \<Rightarrow> (Inl err, tr1))
      | (None, Some err, tr0) \<Rightarrow> (Inl err, tr0)
      | (None, None, tr0) \<Rightarrow> (Inl Panic, tr0)
      | (Some t, None, tr0) \<Rightarrow>
          (case QueueLeaves leaves queueTimestamp t of
             (Inl err, t1) \<Rightarrow> (case Close t1 tr0 of (_, _, tr1) \<Rightarrow> (Inl err, tr1))
           | (Inr existing, t1) \<Rightarrow>
               (case Commit t1 tr0 of
                  (Some err, t2, tr2) \<Rightarrow> (case Close t2 tr2 of (_, _, tr3) \<Rightarrow> (Inl err, tr3))
                | (None, t2, tr2) \<Rightarrow>
                    (case Close t2 tr2 of (_, _, tr3) \<Rightarrow> (QueueLeaves_ret existing leaves, tr3)))))"

subsection \<open>Sequences of calls in a transaction\<close>

text \<open>
  What a caller does with a transaction, as the sequence of its calls of the operations
  that change the transaction or the tree, each made whatever the earlier ones
  returned. The other operations (DequeueLeaves, GetLeavesByRange, GetLeavesByHash,
  LatestSignedLogRoot, AddSequencedLeaves) return a value and change nothing.
\<close>

datatype call =
    QueueLeaves_call "LogLeaf list" int
  | UpdateSequencedLeaves_call "LogLeaf list"
  | StoreSignedLogRoot_call SignedLogRoot

fun run_call :: "(bytes \<Rightarrow> error + LogRootV1) \<Rightarrow> call \<Rightarrow> logTreeTX \<times> tree \<Rightarrow> logTreeTX \<times> tree" where
  "run_call UnmarshalBinary (QueueLeaves_call leaves queueTimestamp) (t, tr) =
     (snd (QueueLeaves leaves queueTimestamp t), tr)"
| "run_call UnmarshalBinary (UpdateSequencedLeaves_call leaves) (t, tr) =
     (snd (UpdateSequencedLeaves leaves t), tr)"
| "run_call UnmarshalBinary (StoreSignedLogRoot_call signedRoot) (t, tr) =
     snd (StoreSignedLogRoot UnmarshalBinary signedRoot t tr)"

fun run_calls ::
  "(bytes \<Rightarrow> error + LogRootV1) \<Rightarrow> call list \<Rightarrow> logTreeTX \<times> tree \<Rightarrow> logTreeTX \<times> tree" where
  "run_calls UnmarshalBinary [] st = st"
| "run_calls UnmarshalBinary (c # calls) st = run_calls UnmarshalBinary calls (run_call UnmarshalBinary c st)"

subsection \<open>Notions used in the statements and proofs\<close>

text \<open>
  The leaf a transaction sees at a sequence number, if any; the condition that every
  item under a sequence-number key is a leaf (so that no type assertion panics), which
  holds of every store the functions above have written; and the condition that the map
  from Merkle hashes to sequence numbers agrees with the leaves stored: each stored leaf
  is listed under its Merkle hash, and each listed sequence number that holds a leaf
  holds one of that hash.
\<close>

definition leaf_at :: "logTreeTX \<Rightarrow> int \<Rightarrow> LogLeaf option" where
  "leaf_at t k = (case tx t (seqLeafKey (treeID t) k) of Some (VLeaf leaf) \<Rightarrow> Some leaf | _ \<Rightarrow> None)"

definition seq_typed :: "logTreeTX \<Rightarrow> bool" where
  "seq_typed t \<longleftrightarrow> (\<forall>k v. tx t (seqLeafKey (treeID t) k) = Some v \<longrightarrow> (\<exists>leaf. v = VLeaf leaf))"

definition index_agrees :: "logTreeTX \<Rightarrow> (bytes \<rightharpoonup> int list) \<Rightarrow> bool" where
  "index_agrees t m \<longleftrightarrow>
     (\<forall>k leaf. leaf_at t k = Some leaf \<longrightarrow> (\<exists>seq. m (MerkleLeafHash leaf) = Some seq \<and> k \<in> set seq))
   \<and> (\<forall>h seq k leaf. m h = Some seq \<and> k \<in> set seq \<and> leaf_at t k = Some leaf
         \<longrightarrow> MerkleLeafHash leaf = h)"

text \<open>
  The counts of UpdateSequencedLeaves seen as a multiset of Merkle hashes: every count
  kept in the map is positive, and the count of a hash is its multiplicity.
\<close>

definition counts_rel :: "(bytes \<times> int) list \<Rightarrow> bytes multiset \<Rightarrow> bool" where
  "counts_rel c M \<longleftrightarrow>
     (\<forall>k n. map_of c k = Some n \<longrightarrow> 0 < n) \<and> (\<forall>k. count_of c k = int (count M k))"

subsection \<open>Example states\<close>

text \<open>
  A stand-in for \<^verbatim>\<open>UnmarshalBinary\<close> in the examples: a log root of one byte, which is its
  timestamp. The functions above are stated for every decoder.
\<close>

definition ex_unmarshal :: "bytes \<Rightarrow> error + LogRootV1" where
  "ex_unmarshal b =
     (case b of
        [ts] \<Rightarrow> Inr \<lparr>TreeSize = 0, RootHash = [], TimestampNanos = unat ts, Revision = 0\<rparr>
      | _ \<Rightarrow> Inl ErrUnmarshal)"

definition ex_slr :: "8 word \<Rightarrow> SignedLogRoot" where
  "ex_slr ts = \<lparr>LogRoot = [ts], LogRootSignature = []\<rparr>"

text \<open>
  \<open>ex_leaf i m idx\<close>: a leaf with the 32-byte identity hash \<open>i i \<dots> i\<close>, the 32-byte
  Merkle hash \<open>m m \<dots> m\<close> and leaf index \<open>idx\<close>, queued at time 2000.
\<close>

definition ex_leaf :: "8 word \<Rightarrow> 8 word \<Rightarrow> int \<Rightarrow> LogLeaf" where
  "ex_leaf i m idx =
     \<lparr>MerkleLeafHash = replicate 32 m, LeafValue = [i], ExtraData = [], LeafIndex = idx,
      LeafIdentityHash = replicate 32 i, QueueTimestamp = 2000, IntegrateTimestamp = 0\<rparr>"

text \<open>
  The store of tree 17 after these calls on a new tree with an initial root at time 5:
  leaf 1 queued twice and leaf 2 once, then leaf 1 sequenced at index 0 and leaf 2 at
  index 2. One copy of leaf 1 is still queued; index 1 is empty.
\<close>

definition ex_store :: btree where
  "ex_store =
     [unseqKey 17 \<mapsto> VList [ex_leaf 1 10 (-1)],
      hashToSeqKey 17 \<mapsto> VMap [replicate 32 10 \<mapsto> [0], replicate 32 11 \<mapsto> [2]],
      seqLeafKey 17 0 \<mapsto> VLeaf (ex_leaf 1 10 0),
      seqLeafKey 17 2 \<mapsto> VLeaf (ex_leaf 2 11 2),
      sthKey 17 5 \<mapsto> VSlr (ex_slr 5),
      revKey 17 5 \<mapsto> VRev 1]"

definition ex_tree :: tree where
  "ex_tree = \<lparr>store = ex_store, currentSTH = 5\<rparr>"

definition ex_ttx :: treeTX where
  "ex_ttx = \<lparr>tx = ex_store, treeID = 17, hashSizeBytes = 32, writeRevision = - 1, closed = False\<rparr>"

definition ex_tx :: logTreeTX where
  "ex_tx = \<lparr>tx = ex_store, treeID = 17, hashSizeBytes = 32, writeRevision = 2, closed = False,
            root = \<lparr>TreeSize = 0, RootHash = [], TimestampNanos = 5, Revision = 0\<rparr>,
            slr = Some (ex_slr 5)\<rparr>"

text \<open>
  A store of tree 17 with a leaf at the largest 64-bit index and one at the smallest.
\<close>

definition ex_wrap_store :: btree where
  "ex_wrap_store =
     [seqLeafKey 17 9223372036854775807 \<mapsto> VLeaf (ex_leaf 5 14 9223372036854775807),
      seqLeafKey 17 (- 9223372036854775808) \<mapsto> VLeaf (ex_leaf 6 15 (- 9223372036854775808))]"

text \<open>
  The transaction on a new tree 17, whose store holds no root yet: what beginInternal
  returns beside \<^verbatim>\<open>ErrTreeNeedsInit\<close>.
\<close>

definition ex_new_tx :: logTreeTX where
  "ex_new_tx = \<lparr>tx = Map.empty, treeID = 17, hashSizeBytes = 32, writeRevision = - 1, closed = False,
                root = \<lparr>TreeSize = 0, RootHash = [], TimestampNanos = 0, Revision = 0\<rparr>,
                slr = None\<rparr>"

section \<open>Properties\<close>

lemmas ex_defs = ex_ttx_def ex_tree_def ex_store_def ex_tx_def ex_unmarshal_def ex_slr_def ex_leaf_def

subsection \<open>beginInternal\<close>

lemma beginInternal_example: "beginInternal ex_unmarshal ex_ttx ex_tree = (Some ex_tx, None, ex_tree)"
  by (simp add: beginInternal_def fetchLatestRoot_def ex_defs wrap64_def)

lemma beginInternal_new_example:
  "beginInternal ex_unmarshal (ex_ttx\<lparr>tx := Map.empty\<rparr>) (ex_tree\<lparr>store := Map.empty\<rparr>)
     = (Some ex_new_tx, Some ErrTreeNeedsInit, ex_tree\<lparr>store := Map.empty\<rparr>)"
  by (simp add: beginInternal_def fetchLatestRoot_def ex_ttx_def ex_new_tx_def)

lemma beginInternal_tree:
  assumes "beginInternal U ttx tr = (txo, e, tr0)"
  shows "tr0 = tr"
  using assms
  by (auto simp: beginInternal_def Let_def Close_def split: sum.splits if_splits prod.splits)

lemma beginInternal_Some:
  assumes "beginInternal U ttx tr = (Some t, e, tr0)"
  shows "hashSizeBytes t = hashSizeBytes ttx \<and> treeID t = treeID ttx \<and> tx t = tx ttx"
  using assms
  by (auto simp: beginInternal_def Let_def Close_def split: sum.splits if_splits prod.splits)

subsection \<open>AddSequencedLeaves\<close>

text \<open>
  Claim C9, as amended. AddSequencedLeaves, of the storage and of a transaction alike,
  returns Unimplemented for every tree, leaves and timestamp: a tree of type
  PREORDERED\_LOG gets the same answer as any other.
\<close>

theorem AddSequencedLeaves_Unimplemented:
  "memoryLogStorage_AddSequencedLeaves tree leaves timestamp = Inl Unimplemented
   \<and> AddSequencedLeaves leaves timestamp t = Inl Unimplemented"
  by (simp add: memoryLogStorage_AddSequencedLeaves_def AddSequencedLeaves_def)

text \<open>
  Claim C9 as stated fails: for a PREORDERED\_LOG tree the leaves are not accepted, the
  call returns Unimplemented.
\<close>

theorem AddSequencedLeaves_preordered_counterexample:
  "memoryLogStorage_AddSequencedLeaves \<lparr>TreeId = 17, TreeType = PREORDERED_LOG\<rparr>
     [ex_leaf 3 12 1] 3000 = Inl Unimplemented"
  by (simp add: memoryLogStorage_AddSequencedLeaves_def)

subsection \<open>QueueLeaves\<close>

lemma QueueLeaves_check_bad:
  "\<exists>leaf \<in> set leaves. int (length (LeafIdentityHash leaf)) \<noteq> n
   \<Longrightarrow> QueueLeaves_check n leaves = Some (ErrQueuedHashLength n)"
  by (induction leaves) auto

lemma QueueLeaves_check_good:
  "\<forall>leaf \<in> set leaves. int (length (LeafIdentityHash leaf)) = n
   \<Longrightarrow> QueueLeaves_check n leaves = None"
  by (induction leaves) auto

lemma PushBack_all_append: "PushBack_all q leaves = q @ leaves"
  by (induction leaves arbitrary: q) auto

text \<open>
  Claim C8. If some leaf of the batch has an identity hash whose length is not the
  hasher's size, QueueLeaves of the transaction returns an error and leaves the
  transaction as it was, so no leaf of the batch is in the queue; and QueueLeaves of the
  storage, on a transaction with that hash size, returns an error and leaves the tree
  as it was.
\<close>

theorem QueueLeaves_rejects_whole_batch:
  assumes "\<exists>leaf \<in> set leaves. int (length (LeafIdentityHash leaf)) \<noteq> hashSizeBytes t"
  shows "QueueLeaves leaves queueTimestamp t = (Inl (ErrQueuedHashLength (hashSizeBytes t)), t)
         \<and> (hashSizeBytes ttx = hashSizeBytes t
              \<longrightarrow> (\<exists>err. memoryLogStorage_QueueLeaves U ttx tr leaves queueTimestamp = (Inl err, tr)))"
proof (intro conjI impI)
  show "QueueLeaves leaves queueTimestamp t = (Inl (ErrQueuedHashLength (hashSizeBytes t)), t)"
    using QueueLeaves_check_bad [OF assms] by (simp add: QueueLeaves_def)
next
  assume h: "hashSizeBytes ttx = hashSizeBytes t"
  obtain txo e tr0 where b: "beginInternal U ttx tr = (txo, e, tr0)"
    by (cases "beginInternal U ttx tr") auto
  have tr0: "tr0 = tr" using beginInternal_tree [OF b] .
  show "\<exists>err. memoryLogStorage_QueueLeaves U ttx tr leaves queueTimestamp = (Inl err, tr)"
  proof (cases txo)
    case None
    then show ?thesis using b tr0
      by (cases e) (simp_all add: memoryLogStorage_QueueLeaves_def)
  next
    case (Some t0)
    have hs: "hashSizeBytes t0 = hashSizeBytes t"
      using beginInternal_Some [of U ttx tr t0 e tr0] b Some h by simp
    have bad: "\<exists>leaf \<in> set leaves. int (length (LeafIdentityHash leaf)) \<noteq> hashSizeBytes t0"
      using assms hs by simp
    have "QueueLeaves leaves queueTimestamp t0 = (Inl (ErrQueuedHashLength (hashSizeBytes t0)), t0)"
      using QueueLeaves_check_bad [OF bad] by (simp add: QueueLeaves_def)
    then show ?thesis using b Some tr0
      by (cases e) (simp_all add: memoryLogStorage_QueueLeaves_def Close_def)
  qed
qed

text \<open>
  A batch of a good leaf followed by one with a one-byte identity hash, on the example
  transaction: the error names the size 32, and the transaction and the tree are
  unchanged.
\<close>

theorem QueueLeaves_rejects_whole_batch_witness:
  "int (length (LeafIdentityHash ((ex_leaf 3 12 (- 1))\<lparr>LeafIdentityHash := [7]\<rparr>))) \<noteq> hashSizeBytes ex_tx
   \<and> QueueLeaves [ex_leaf 4 13 (- 1), (ex_leaf 3 12 (- 1))\<lparr>LeafIdentityHash := [7]\<rparr>] 3000 ex_tx
       = (Inl (ErrQueuedHashLength 32), ex_tx)
   \<and> (\<exists>err. memoryLogStorage_QueueLeaves ex_unmarshal ex_ttx ex_tree
               [ex_leaf 4 13 (- 1), (ex_leaf 3 12 (- 1))\<lparr>LeafIdentityHash := [7]\<rparr>] 3000
             = (Inl err, ex_tree))"
proof -
  have h: "\<exists>leaf \<in> set [ex_leaf 4 13 (- 1), (ex_leaf 3 12 (- 1))\<lparr>LeafIdentityHash := [7]\<rparr>].
             int (length (LeafIdentityHash leaf)) \<noteq> hashSizeBytes ex_tx"
    by (simp add: ex_defs)
  have s: "hashSizeBytes ex_ttx = hashSizeBytes ex_tx"
    by (simp add: ex_defs)
  show ?thesis
    using QueueLeaves_rejects_whole_batch [OF h, of 3000 ex_ttx ex_unmarshal ex_tree] s
    by (simp add: ex_tx_def ex_leaf_def)
qed

subsection \<open>LatestSignedLogRoot\<close>

lemma slr_QueueLeaves: "slr (snd (QueueLeaves leaves queueTimestamp t)) = slr t"
  by (simp add: QueueLeaves_def split: option.splits val.splits)

lemma slr_UpdateSequencedLeaves_insert:
  "slr (snd (UpdateSequencedLeaves_insert c leaves t)) = slr t"
proof (induction leaves arbitrary: c t)
  case Nil
  then show ?case by simp
next
  case (Cons leaf leaves)
  then show ?case by (simp add: Let_def split: option.splits val.splits)
qed

lemma slr_UpdateSequencedLeaves: "slr (snd (UpdateSequencedLeaves leaves t)) = slr t"
proof (cases "UpdateSequencedLeaves_insert [] leaves t")
  case (Pair r t1)
  have "slr t1 = slr t"
    using slr_UpdateSequencedLeaves_insert [of "[]" leaves t] Pair by simp
  then show ?thesis
    using Pair
    by (simp add: UpdateSequencedLeaves_def split: sum.splits option.splits val.splits prod.splits)
qed

lemma slr_StoreSignedLogRoot: "slr (fst (snd (StoreSignedLogRoot U s t tr))) = slr t"
  by (simp add: StoreSignedLogRoot_def Let_def split: sum.splits)

lemma slr_run_call: "slr (fst (run_call U c st)) = slr (fst st)"
proof (cases st)
  case (Pair t tr)
  then show ?thesis
    by (cases c) (simp_all add: slr_QueueLeaves slr_UpdateSequencedLeaves slr_StoreSignedLogRoot)
qed

lemma slr_run_calls: "slr (fst (run_calls U calls st)) = slr (fst st)"
  by (induction calls arbitrary: st) (simp_all add: slr_run_call)

text \<open>
  Claim C10. LatestSignedLogRoot returns the same value before and after
  StoreSignedLogRoot, for every transaction, tree and signed root and whatever
  StoreSignedLogRoot returns; and the same value before and after every sequence of
  calls of StoreSignedLogRoot, QueueLeaves and UpdateSequencedLeaves. In a transaction
  that beginInternal returned, that value is the signed root loaded at the beginning:
  the one stored under the tree's current STH timestamp when there was no error, none
  when the tree needs initialising. So it is what LatestSignedLogRoot returns at every
  point of the transaction.
\<close>

theorem LatestSignedLogRoot_fixed:
  "LatestSignedLogRoot (fst (snd (StoreSignedLogRoot U s t tr))) = LatestSignedLogRoot t
   \<and> LatestSignedLogRoot (fst (run_calls U calls (t, tr))) = LatestSignedLogRoot t
   \<and> (beginInternal U ttx tr0 = (Some t, e, tr1)
        \<longrightarrow> (e = None \<longrightarrow> (\<exists>sth. tx ttx (sthKey (treeID ttx) (currentSTH tr0)) = Some (VSlr sth)
                                \<and> LatestSignedLogRoot t = (Some sth, None)))
            \<and> (e \<noteq> None \<longrightarrow> LatestSignedLogRoot t = (None, None)))"
proof (intro conjI impI)
  show "LatestSignedLogRoot (fst (snd (StoreSignedLogRoot U s t tr))) = LatestSignedLogRoot t"
    by (simp add: LatestSignedLogRoot_def slr_StoreSignedLogRoot)
  show "LatestSignedLogRoot (fst (run_calls U calls (t, tr))) = LatestSignedLogRoot t"
    using slr_run_calls [of U calls "(t, tr)"] by (simp add: LatestSignedLogRoot_def)
next
  assume "beginInternal U ttx tr0 = (Some t, e, tr1)" and "e = None"
  then show "\<exists>sth. tx ttx (sthKey (treeID ttx) (currentSTH tr0)) = Some (VSlr sth)
                   \<and> LatestSignedLogRoot t = (Some sth, None)"
    by (auto simp: beginInternal_def LatestSignedLogRoot_def fetchLatestRoot_def
        Let_def Close_def split: sum.splits if_splits prod.splits option.splits val.splits)
next
  assume "beginInternal U ttx tr0 = (Some t, e, tr1)" and "e \<noteq> None"
  then show "LatestSignedLogRoot t = (None, None)"
    by (auto simp: beginInternal_def LatestSignedLogRoot_def fetchLatestRoot_def
        Let_def Close_def split: sum.splits if_splits prod.splits option.splits val.splits)
qed

text \<open>
  The example transaction loaded the root of time 5. After storing a root of time 9,
  and after storing a root of time 7, queueing a leaf, sequencing it and storing a root
  of time 9, LatestSignedLogRoot still returns the root of time 5. The transaction on a
  new tree loaded no root, and returns none after storing two.
\<close>

theorem LatestSignedLogRoot_fixed_witness:
  "beginInternal ex_unmarshal ex_ttx ex_tree = (Some ex_tx, None, ex_tree)
   \<and> tx ex_ttx (sthKey (treeID ex_ttx) (currentSTH ex_tree)) = Some (VSlr (ex_slr 5))
   \<and> LatestSignedLogRoot ex_tx = (Some (ex_slr 5), None)
   \<and> LatestSignedLogRoot (fst (snd (StoreSignedLogRoot ex_unmarshal (ex_slr 9) ex_tx ex_tree)))
       = (Some (ex_slr 5), None)
   \<and> LatestSignedLogRoot
        (fst (run_calls ex_unmarshal
                [StoreSignedLogRoot_call (ex_slr 7), QueueLeaves_call [ex_leaf 3 12 (- 1)] 3000,
                 UpdateSequencedLeaves_call [ex_leaf 3 12 1], StoreSignedLogRoot_call (ex_slr 9)]
                (ex_tx, ex_tree)))
       = (Some (ex_slr 5), None)
   \<and> LatestSignedLogRoot
        (fst (run_calls ex_unmarshal [StoreSignedLogRoot_call (ex_slr 7), StoreSignedLogRoot_call (ex_slr 9)]
                (ex_new_tx, ex_tree\<lparr>store := Map.empty\<rparr>)))
       = (None, None)"
proof -
  let ?calls = "[StoreSignedLogRoot_call (ex_slr 7), QueueLeaves_call [ex_leaf 3 12 (- 1)] 3000,
                 UpdateSequencedLeaves_call [ex_leaf 3 12 1], StoreSignedLogRoot_call (ex_slr 9)]"
  let ?stores = "[StoreSignedLogRoot_call (ex_slr 7), StoreSignedLogRoot_call (ex_slr 9)]"
  have b: "beginInternal ex_unmarshal ex_ttx ex_tree = (Some ex_tx, None, ex_tree)"
    by (rule beginInternal_example)
  have k: "tx ex_ttx (sthKey (treeID ex_ttx) (currentSTH ex_tree)) = Some (VSlr (ex_slr 5))"
    by (simp add: ex_ttx_def ex_tree_def ex_store_def)
  note old = LatestSignedLogRoot_fixed
    [of ex_unmarshal "ex_slr 9" ex_tx ex_tree ?calls ex_ttx ex_tree None ex_tree]
  note new = LatestSignedLogRoot_fixed
    [of ex_unmarshal "ex_slr 9" ex_new_tx "ex_tree\<lparr>store := Map.empty\<rparr>" ?stores
        "ex_ttx\<lparr>tx := Map.empty\<rparr>" "ex_tree\<lparr>store := Map.empty\<rparr>" "Some ErrTreeNeedsInit"
        "ex_tree\<lparr>store := Map.empty\<rparr>"]
  have l: "LatestSignedLogRoot ex_tx = (Some (ex_slr 5), None)"
    using old b k by simp
  have l0: "LatestSignedLogRoot ex_new_tx = (None, None)"
    using new beginInternal_new_example by simp
  show ?thesis
    using old new b k l l0 by simp
qed

subsection \<open>QueueLeaves without de-duplication\<close>

lemma QueueLeaves_ret_nil:
  "QueueLeaves_ret (replicate (length leaves) None) leaves
     = Inr (map (\<lambda>leaf. Some \<lparr>Leaf = leaf, Status = None\<rparr>) leaves)"
  by (induction leaves) auto

text \<open>
  Claim C1, as amended. When every leaf of the batch has an identity hash of the
  hasher's size and the transaction began without error, QueueLeaves of the storage
  appends every leaf of the batch to the queue, in batch order, and reports every leaf
  at its position with a nil (OK) status carrying the submitted leaf, whether or not
  its identity hash is already in the store; the transaction reports no existing leaf
  at any position. Here \<open>q\<close> is the queue before the call.
\<close>

theorem QueueLeaves_no_dedup:
  assumes "\<forall>leaf \<in> set leaves. int (length (LeafIdentityHash leaf)) = hashSizeBytes ttx"
      and "tx ttx (unseqKey (treeID ttx)) = Some (VList q)"
      and "beginInternal U ttx tr = (Some t, None, tr0)"
  shows "memoryLogStorage_QueueLeaves U ttx tr leaves queueTimestamp
           = (Inr (map (\<lambda>leaf. Some \<lparr>Leaf = leaf, Status = None\<rparr>) leaves),
              tr\<lparr>store := (tx ttx)(unseqKey (treeID ttx) \<mapsto> VList (q @ leaves))\<rparr>)
         \<and> QueueLeaves leaves queueTimestamp t
           = (Inr (replicate (length leaves) None),
              t\<lparr>tx := (tx t)(unseqKey (treeID t) \<mapsto> VList (q @ leaves))\<rparr>)"
proof -
  have eqs: "hashSizeBytes t = hashSizeBytes ttx" "treeID t = treeID ttx" "tx t = tx ttx"
    using beginInternal_Some [OF assms(3)] by simp_all
  have tr0: "tr0 = tr" using beginInternal_tree [OF assms(3)] .
  have chk: "QueueLeaves_check (hashSizeBytes t) leaves = None"
    using QueueLeaves_check_good [of leaves "hashSizeBytes t"] assms(1) eqs by simp
  have q: "QueueLeaves leaves queueTimestamp t
           = (Inr (replicate (length leaves) None),
              t\<lparr>tx := (tx t)(unseqKey (treeID t) \<mapsto> VList (q @ leaves))\<rparr>)"
    using chk assms(2) eqs by (simp add: QueueLeaves_def PushBack_all_append)
  show ?thesis
    using q assms(3) tr0 eqs
    by (simp add: memoryLogStorage_QueueLeaves_def Commit_def Close_def QueueLeaves_ret_nil)
qed

text \<open>
  On the example tree, a batch of leaf 1, which is already queued and already
  sequenced, and of a new leaf 3: both are reported OK and both are appended.
\<close>

theorem QueueLeaves_no_dedup_witness:
  "memoryLogStorage_QueueLeaves ex_unmarshal ex_ttx ex_tree [ex_leaf 1 10 (- 1), ex_leaf 3 12 (- 1)] 3000
     = (Inr [Some \<lparr>Leaf = ex_leaf 1 10 (- 1), Status = None\<rparr>, Some \<lparr>Leaf = ex_leaf 3 12 (- 1), Status = None\<rparr>],
        ex_tree\<lparr>store := ex_store(unseqKey 17 \<mapsto> VList [ex_leaf 1 10 (- 1), ex_leaf 1 10 (- 1), ex_leaf 3 12 (- 1)])\<rparr>)"
proof -
  have v: "\<forall>leaf \<in> set [ex_leaf 1 10 (- 1), ex_leaf 3 12 (- 1)].
             int (length (LeafIdentityHash leaf)) = hashSizeBytes ex_ttx"
    by (simp add: ex_leaf_def ex_ttx_def)
  have q: "tx ex_ttx (unseqKey (treeID ex_ttx)) = Some (VList [ex_leaf 1 10 (- 1)])"
    by (simp add: ex_ttx_def ex_store_def)
  have i: "treeID ex_ttx = 17" "tx ex_ttx = ex_store" by (simp_all add: ex_ttx_def)
  show ?thesis
    using QueueLeaves_no_dedup [OF v q beginInternal_example, of 3000] i by simp
qed

text \<open>
  Claim C1 as stated fails. The identity hash of leaf 1 is in the example store, at
  sequence number 0 and in the queue; submitting leaf 1 again is reported with a nil
  status, not AlreadyExists, and the queue holds one more copy.
\<close>

theorem QueueLeaves_dedup_counterexample:
  "store ex_tree (seqLeafKey 17 0) = Some (VLeaf (ex_leaf 1 10 0))
   \<and> store ex_tree (unseqKey 17) = Some (VList [ex_leaf 1 10 (- 1)])
   \<and> LeafIdentityHash (ex_leaf 1 10 0) = LeafIdentityHash (ex_leaf 1 10 (- 1))
   \<and> fst (memoryLogStorage_QueueLeaves ex_unmarshal ex_ttx ex_tree [ex_leaf 1 10 (- 1)] 3000)
       = Inr [Some \<lparr>Leaf = ex_leaf 1 10 (- 1), Status = None\<rparr>]
   \<and> store (snd (memoryLogStorage_QueueLeaves ex_unmarshal ex_ttx ex_tree [ex_leaf 1 10 (- 1)] 3000))
       (unseqKey 17) = Some (VList [ex_leaf 1 10 (- 1), ex_leaf 1 10 (- 1)])"
  unfolding memoryLogStorage_QueueLeaves_def beginInternal_example
  by (simp add: QueueLeaves_def Commit_def Close_def ex_tx_def ex_tree_def ex_store_def ex_leaf_def)

subsection \<open>DequeueLeaves\<close>

lemma DequeueLeaves_loop_take:
  "DequeueLeaves_loop i limit q leaves = leaves @ take (nat (limit - i)) q"
proof (induction q arbitrary: i leaves)
  case Nil
  then show ?case by simp
next
  case (Cons e rest)
  show ?case
  proof (cases "i < limit")
    case True
    then have "nat (limit - i) = Suc (nat (limit - (i + 1)))" by simp
    then show ?thesis using True Cons.IH [of "i + 1" "leaves @ [e]"] by simp
  next
    case False
    then show ?thesis by simp
  qed
qed

text \<open>
  What DequeueLeaves returns: the first \<open>limit\<close> elements of the queue, whatever the
  cutoff time.
\<close>

lemma DequeueLeaves_take:
  assumes "0 \<le> limit" and "limit \<le> maxCap" and "tx t (unseqKey (treeID t)) = Some (VList q)"
  shows "DequeueLeaves maxCap limit cutoffTime t = Inr (take (nat limit) q)"
  using assms by (simp add: DequeueLeaves_def DequeueLeaves_loop_take)

text \<open>
  Claim C4 fails on the code. Leaf 3 carries the queue timestamp 2000 and is queued at
  time 2000; DequeueLeaves with cutoff 1000 returns it, with the leaf queued before it
  (which carries the timestamp 2000 too), wherever \<^verbatim>\<open>make\<close> grants the capacity 2.
\<close>

theorem DequeueLeaves_ignores_cutoff:
  "QueueTimestamp (ex_leaf 3 12 (- 1)) = 2000
   \<and> fst (QueueLeaves [ex_leaf 3 12 (- 1)] 2000 ex_tx) = Inr [None]
   \<and> DequeueLeaves maxCap 2 1000 (snd (QueueLeaves [ex_leaf 3 12 (- 1)] 2000 ex_tx))
       = (if maxCap < 2 then Inl Panic else Inr [ex_leaf 1 10 (- 1), ex_leaf 3 12 (- 1)])"
  by (simp add: QueueLeaves_def DequeueLeaves_def ex_tx_def ex_store_def ex_leaf_def)

subsection \<open>StoreSignedLogRoot\<close>

text \<open>
  Claim C7, as amended. When the log root unmarshals, StoreSignedLogRoot returns no
  error and the transaction then holds the given signed root under the root's
  timestamp and the write revision under the same timestamp, whether or not a record
  with that timestamp was there before; every other key is as before. When the log root
  does not unmarshal, that error is returned and nothing changes.
\<close>

theorem StoreSignedLogRoot_replaces:
  assumes "StoreSignedLogRoot U s t tr = (e, t', tr')"
  shows "(\<forall>r. U (LogRoot s) = Inr r \<longrightarrow>
            e = None
            \<and> tx t' (sthKey (treeID t) (TimestampNanos r)) = Some (VSlr s)
            \<and> tx t' (revKey (treeID t) (TimestampNanos r)) = Some (VRev (writeRevision t))
            \<and> (\<forall>k. k \<noteq> sthKey (treeID t) (TimestampNanos r) \<and> k \<noteq> revKey (treeID t) (TimestampNanos r)
                   \<longrightarrow> tx t' k = tx t k))
         \<and> (\<forall>err. U (LogRoot s) = Inl err \<longrightarrow> e = Some err \<and> t' = t \<and> tr' = tr)"
  using assms
  by (auto simp: StoreSignedLogRoot_def Let_def split: sum.splits)

text \<open>
  Storing a second root of time 5, with another signature, in the example transaction;
  and storing a root whose bytes do not unmarshal.
\<close>

theorem StoreSignedLogRoot_replaces_witness:
  "ex_unmarshal (LogRoot \<lparr>LogRoot = [5], LogRootSignature = [1]\<rparr>)
     = Inr \<lparr>TreeSize = 0, RootHash = [], TimestampNanos = 5, Revision = 0\<rparr>
   \<and> fst (StoreSignedLogRoot ex_unmarshal \<lparr>LogRoot = [5], LogRootSignature = [1]\<rparr> ex_tx ex_tree) = None
   \<and> tx (fst (snd (StoreSignedLogRoot ex_unmarshal \<lparr>LogRoot = [5], LogRootSignature = [1]\<rparr> ex_tx ex_tree)))
        (sthKey 17 5) = Some (VSlr \<lparr>LogRoot = [5], LogRootSignature = [1]\<rparr>)
   \<and> tx (fst (snd (StoreSignedLogRoot ex_unmarshal \<lparr>LogRoot = [5], LogRootSignature = [1]\<rparr> ex_tx ex_tree)))
        (revKey 17 5) = Some (VRev 2)
   \<and> ex_unmarshal (LogRoot \<lparr>LogRoot = [], LogRootSignature = [1]\<rparr>) = Inl ErrUnmarshal
   \<and> StoreSignedLogRoot ex_unmarshal \<lparr>LogRoot = [], LogRootSignature = [1]\<rparr> ex_tx ex_tree
       = (Some ErrUnmarshal, ex_tx, ex_tree)"
proof -
  let ?s = "\<lparr>LogRoot = [5], LogRootSignature = [1]\<rparr>"
  let ?bad = "\<lparr>LogRoot = [], LogRootSignature = [1]\<rparr>"
  have u: "ex_unmarshal (LogRoot ?s) = Inr \<lparr>TreeSize = 0, RootHash = [], TimestampNanos = 5, Revision = 0\<rparr>"
    by (simp add: ex_unmarshal_def)
  have u0: "ex_unmarshal (LogRoot ?bad) = Inl ErrUnmarshal"
    by (simp add: ex_unmarshal_def)
  have st: "StoreSignedLogRoot ex_unmarshal ?s ex_tx ex_tree
              = (fst (StoreSignedLogRoot ex_unmarshal ?s ex_tx ex_tree),
                 fst (snd (StoreSignedLogRoot ex_unmarshal ?s ex_tx ex_tree)),
                 snd (snd (StoreSignedLogRoot ex_unmarshal ?s ex_tx ex_tree)))"
    by simp
  have st0: "StoreSignedLogRoot ex_unmarshal ?bad ex_tx ex_tree
              = (fst (StoreSignedLogRoot ex_unmarshal ?bad ex_tx ex_tree),
                 fst (snd (StoreSignedLogRoot ex_unmarshal ?bad ex_tx ex_tree)),
                 snd (snd (StoreSignedLogRoot ex_unmarshal ?bad ex_tx ex_tree)))"
    by simp
  have i: "treeID ex_tx = 17" "writeRevision ex_tx = 2" by (simp_all add: ex_tx_def)
  have a: "fst (StoreSignedLogRoot ex_unmarshal ?s ex_tx ex_tree) = None
           \<and> tx (fst (snd (StoreSignedLogRoot ex_unmarshal ?s ex_tx ex_tree))) (sthKey 17 5) = Some (VSlr ?s)
           \<and> tx (fst (snd (StoreSignedLogRoot ex_unmarshal ?s ex_tx ex_tree))) (revKey 17 5) = Some (VRev 2)"
    using StoreSignedLogRoot_replaces [OF st] u i by simp
  have b: "StoreSignedLogRoot ex_unmarshal ?bad ex_tx ex_tree = (Some ErrUnmarshal, ex_tx, ex_tree)"
    using StoreSignedLogRoot_replaces [OF st0] u0 by (metis prod.collapse)
  show ?thesis using a b u u0 by simp
qed

text \<open>
  Claim C7 as stated fails. The example transaction holds a root of time 5; storing
  another root of time 5 returns no error and replaces the record.
\<close>

theorem StoreSignedLogRoot_collision_counterexample:
  "tx ex_tx (sthKey 17 5) = Some (VSlr \<lparr>LogRoot = [5], LogRootSignature = []\<rparr>)
   \<and> ex_unmarshal [5] = Inr \<lparr>TreeSize = 0, RootHash = [], TimestampNanos = 5, Revision = 0\<rparr>
   \<and> fst (StoreSignedLogRoot ex_unmarshal \<lparr>LogRoot = [5], LogRootSignature = [1]\<rparr> ex_tx ex_tree) = None
   \<and> tx (fst (snd (StoreSignedLogRoot ex_unmarshal \<lparr>LogRoot = [5], LogRootSignature = [1]\<rparr> ex_tx ex_tree)))
        (sthKey 17 5) = Some (VSlr \<lparr>LogRoot = [5], LogRootSignature = [1]\<rparr>)"
  by (simp add: StoreSignedLogRoot_def ex_tx_def ex_store_def ex_unmarshal_def ex_slr_def ex_tree_def)

text \<open>
  Claim C2 fails on the code. The transaction body stores a root of time 9 and then
  returns an error, so ReadWriteTransaction closes the transaction without a commit:
  the tree's store is the one before, and its current-STH timestamp has gone from 5
  to 9.
\<close>

theorem StoreSignedLogRoot_not_staged:
  "ReadWriteTransaction ex_unmarshal ex_ttx ex_tree
     (\<lambda>t tr. case StoreSignedLogRoot ex_unmarshal (ex_slr 9) t tr of
                (_, t', tr') \<Rightarrow> (Some ErrCallback, t', tr'))
     = (Some ErrCallback, ex_tree\<lparr>currentSTH := 9\<rparr>)
   \<and> currentSTH ex_tree = 5"
  unfolding ReadWriteTransaction_def beginInternal_example
  by (simp add: StoreSignedLogRoot_def Close_def ex_unmarshal_def ex_slr_def ex_tree_def)

subsection \<open>GetLeavesByRange\<close>

lemma seq_typed_cases:
  assumes "seq_typed t"
  shows "(tx t (seqLeafKey (treeID t) k) = None \<and> leaf_at t k = None)
         \<or> (\<exists>leaf. tx t (seqLeafKey (treeID t) k) = Some (VLeaf leaf) \<and> leaf_at t k = Some leaf)"
proof (cases "tx t (seqLeafKey (treeID t) k)")
  case None
  then show ?thesis by (simp add: leaf_at_def)
next
  case (Some v)
  then obtain leaf where "v = VLeaf leaf" using assms unfolding seq_typed_def by blast
  then show ?thesis using Some by (simp add: leaf_at_def)
qed

lemma GetLeavesByRange_loop_eq:
  "seq_typed t \<Longrightarrow>
   GetLeavesByRange_loop t start cnt i ret
     = Inr (ret @ List.map_filter (\<lambda>j. leaf_at t (wrap64 (start + j))) [i..cnt - 1])"
proof (induction t start cnt i ret rule: GetLeavesByRange_loop.induct)
  case (1 t start cnt i ret)
  note typed = "1.prems"
  show ?case
  proof (cases "i < cnt")
    case False
    then have "[i..cnt - 1] = []" by simp
    then show ?thesis using False by (subst GetLeavesByRange_loop.simps) simp
  next
    case True
    then have up: "[i..cnt - 1] = i # [i + 1..cnt - 1]" by (simp add: upto_rec1)
    from seq_typed_cases [OF typed, of "wrap64 (start + i)"] show ?thesis
    proof (elim disjE conjE exE)
      assume a: "tx t (seqLeafKey (treeID t) (wrap64 (start + i))) = None"
         and b: "leaf_at t (wrap64 (start + i)) = None"
      show ?thesis
        using True a b up "1.IH"(1) [OF True a typed]
        by (subst GetLeavesByRange_loop.simps) simp
    next
      fix leaf
      assume a: "tx t (seqLeafKey (treeID t) (wrap64 (start + i))) = Some (VLeaf leaf)"
         and b: "leaf_at t (wrap64 (start + i)) = Some leaf"
      show ?thesis
        using True a b up "1.IH"(2) [OF True a refl typed]
        by (subst GetLeavesByRange_loop.simps) simp
    qed
  qed
qed

lemma wrap64_id: "- (2 ^ 63) \<le> x \<Longrightarrow> x < 2 ^ 63 \<Longrightarrow> wrap64 x = x"
  by (simp add: wrap64_def)

lemma map_filter_keyed:
  assumes "\<forall>j leaf. f j = Some leaf \<longrightarrow> LeafIndex leaf = g j"
  shows "map LeafIndex (List.map_filter f xs) = map g (filter (\<lambda>j. f j \<noteq> None) xs)"
  using assms by (induction xs) (auto split: option.splits)

lemma length_map_filter_le: "length (List.map_filter f xs) \<le> length xs"
  by (induction xs) (auto split: option.splits)

text \<open>
  Claim C5, as amended. For every start and count, GetLeavesByRange panics when the
  count is negative or beyond what \<^verbatim>\<open>make\<close> grants, and otherwise returns the leaves stored
  at the indices start, start+1, \<dots>, start+count-1 of 64-bit arithmetic, in that order,
  passing over the indices that hold no leaf and going on after them. These are at most
  count leaves; and when start+count does not go beyond the largest 64-bit index, so
  that the range does not wrap around, and every leaf is stored under its own leaf
  index, they are in strictly increasing leaf-index order. It does not stop at the first
  missing index.
\<close>

theorem GetLeavesByRange_skips_gaps:
  assumes "seq_typed t"
  shows "GetLeavesByRange maxCap start cnt t
           = (if sint cnt < 0 \<or> maxCap < sint cnt then Inl Panic
              else Inr (List.map_filter (\<lambda>i. leaf_at t (wrap64 (sint start + i))) [0..sint cnt - 1]))
         \<and> int (length (List.map_filter (\<lambda>i. leaf_at t (wrap64 (sint start + i))) [0..sint cnt - 1]))
             \<le> max 0 (sint cnt)
         \<and> (sint start + sint cnt \<le> 2 ^ 63
                \<and> (\<forall>k leaf. leaf_at t k = Some leaf \<longrightarrow> LeafIndex leaf = k)
              \<longrightarrow> sorted_wrt (<) (map LeafIndex
                    (List.map_filter (\<lambda>i. leaf_at t (wrap64 (sint start + i))) [0..sint cnt - 1])))"
proof -
  let ?f = "\<lambda>i. leaf_at t (wrap64 (sint start + i))"
  let ?ret = "List.map_filter ?f [0..sint cnt - 1]"
  have r: "GetLeavesByRange maxCap start cnt t
             = (if sint cnt < 0 \<or> maxCap < sint cnt then Inl Panic else Inr ?ret)"
    using GetLeavesByRange_loop_eq [OF assms, of "sint start" "sint cnt" 0 "[]"]
    by (simp add: GetLeavesByRange_def)
  have l: "int (length ?ret) \<le> max 0 (sint cnt)"
    using length_map_filter_le [of ?f "[0..sint cnt - 1]"] by simp
  have lo: "- (2 ^ 63) \<le> sint start"
    using sint_ge [of start] by simp
  have s: "sorted_wrt (<) (map LeafIndex ?ret)"
    if nw: "sint start + sint cnt \<le> 2 ^ 63"
    and key: "\<forall>k leaf. leaf_at t k = Some leaf \<longrightarrow> LeafIndex leaf = k"
  proof -
    have "map LeafIndex ?ret
            = map (\<lambda>i. wrap64 (sint start + i)) (filter (\<lambda>j. ?f j \<noteq> None) [0..sint cnt - 1])"
      using key by (intro map_filter_keyed) blast
    also have "\<dots> = map (\<lambda>i. sint start + i) (filter (\<lambda>j. ?f j \<noteq> None) [0..sint cnt - 1])"
      using nw lo by (intro map_cong refl wrap64_id) auto
    finally have e: "map LeafIndex ?ret
            = map (\<lambda>i. sint start + i) (filter (\<lambda>j. ?f j \<noteq> None) [0..sint cnt - 1])" .
    have "sorted_wrt (<) (filter (\<lambda>j. ?f j \<noteq> None) [0..sint cnt - 1])"
      by (intro sorted_wrt_filter) simp
    then have "sorted_wrt (<) (map (\<lambda>i. sint start + i) (filter (\<lambda>j. ?f j \<noteq> None) [0..sint cnt - 1]))"
      by (simp add: sorted_wrt_map)
    then show ?thesis using e by simp
  qed
  show ?thesis using r l s by blast
qed

lemma seq_typed_ex: "seq_typed ex_tx"
  by (auto simp: seq_typed_def ex_tx_def ex_store_def split: if_splits)

lemma leaf_at_ex: "leaf_at ex_tx k = (if k = 0 then Some (ex_leaf 1 10 0) else if k = 2 then Some (ex_leaf 2 11 2) else None)"
  by (simp add: leaf_at_def ex_tx_def ex_store_def)

text \<open>
  A second example: leaves at the largest and at the smallest 64-bit index.
\<close>

lemma seq_typed_wrap_ex: "seq_typed (ex_tx\<lparr>tx := ex_wrap_store\<rparr>)"
  by (auto simp: seq_typed_def ex_tx_def ex_wrap_store_def split: if_splits)

text \<open>
  The example transaction holds leaves at the indices 0 and 2 and none at 1; the range
  of 3 from 0 returns both, in leaf-index order, where \<^verbatim>\<open>make\<close> grants 3 elements, and
  panics where it grants only 2. The range of 2 from the largest index wraps around: it
  returns the leaf at the largest index and then the leaf at the smallest.
\<close>

theorem GetLeavesByRange_skips_gaps_witness:
  "seq_typed ex_tx
   \<and> GetLeavesByRange (2 ^ 45) 0 3 ex_tx = Inr [ex_leaf 1 10 0, ex_leaf 2 11 2]
   \<and> sorted_wrt (<) (map LeafIndex [ex_leaf 1 10 0, ex_leaf 2 11 2])
   \<and> GetLeavesByRange 2 0 3 ex_tx = Inl Panic
   \<and> GetLeavesByRange (2 ^ 45) 0 (- 1) ex_tx = Inl Panic
   \<and> GetLeavesByRange (2 ^ 45) 9223372036854775807 2 (ex_tx\<lparr>tx := ex_wrap_store\<rparr>)
       = Inr [ex_leaf 5 14 9223372036854775807, ex_leaf 6 15 (- 9223372036854775808)]"
proof -
  have k: "\<forall>k leaf. leaf_at ex_tx k = Some leaf \<longrightarrow> LeafIndex leaf = k"
    by (simp add: leaf_at_ex ex_leaf_def)
  have n: "sint (0::64 word) + sint (3::64 word) \<le> 2 ^ 63" by simp
  have m: "List.map_filter (\<lambda>i. leaf_at ex_tx (wrap64 (sint (0::64 word) + i))) [0..sint (3::64 word) - 1]
             = [ex_leaf 1 10 0, ex_leaf 2 11 2]"
    by (simp add: leaf_at_ex wrap64_def upto_rec1)
  have w: "List.map_filter (\<lambda>i. leaf_at (ex_tx\<lparr>tx := ex_wrap_store\<rparr>)
                                    (wrap64 (sint (9223372036854775807::64 word) + i)))
             [0..sint (2::64 word) - 1]
             = [ex_leaf 5 14 9223372036854775807, ex_leaf 6 15 (- 9223372036854775808)]"
    by (simp add: leaf_at_def ex_tx_def ex_wrap_store_def wrap64_def upto_rec1)
  have a: "GetLeavesByRange (2 ^ 45) 0 3 ex_tx = Inr [ex_leaf 1 10 0, ex_leaf 2 11 2]
           \<and> sorted_wrt (<) (map LeafIndex [ex_leaf 1 10 0, ex_leaf 2 11 2])"
    using GetLeavesByRange_skips_gaps [OF seq_typed_ex, of "2 ^ 45" 0 3] k n unfolding m by simp
  have b: "GetLeavesByRange 2 0 3 ex_tx = Inl Panic"
    using GetLeavesByRange_skips_gaps [OF seq_typed_ex, of 2 0 3] by simp
  have c: "GetLeavesByRange (2 ^ 45) 0 (- 1) ex_tx = Inl Panic"
    using GetLeavesByRange_skips_gaps [OF seq_typed_ex, of "2 ^ 45" 0 "- 1"] by simp
  have d: "GetLeavesByRange (2 ^ 45) 9223372036854775807 2 (ex_tx\<lparr>tx := ex_wrap_store\<rparr>)
             = Inr [ex_leaf 5 14 9223372036854775807, ex_leaf 6 15 (- 9223372036854775808)]"
    using GetLeavesByRange_skips_gaps [OF seq_typed_wrap_ex, of "2 ^ 45" 9223372036854775807 2]
    unfolding w by simp
  show ?thesis using seq_typed_ex a b c d by blast
qed

text \<open>
  Claim C5 as stated fails. Index 1 is the first missing index of the example; the leaf
  at index 2, beyond it, is returned by the range of 3 from 0, and the range of 2 that
  starts at the missing index 1 is not empty.
\<close>

theorem GetLeavesByRange_gap_counterexample:
  "tx ex_tx (seqLeafKey (treeID ex_tx) 1) = None
   \<and> GetLeavesByRange (2 ^ 45) 0 3 ex_tx = Inr [ex_leaf 1 10 0, ex_leaf 2 11 2]
   \<and> GetLeavesByRange (2 ^ 45) 1 2 ex_tx = Inr [ex_leaf 2 11 2]"
  by (simp add: GetLeavesByRange_def GetLeavesByRange_loop.simps wrap64_def ex_tx_def ex_store_def)

subsection \<open>GetLeavesByHash\<close>

lemma GetLeavesByHash_seq_eq:
  assumes "seq_typed t"
  shows "GetLeavesByHash_seq t seq ret = Inr (ret @ List.map_filter (leaf_at t) seq)"
proof (induction seq arbitrary: ret)
  case Nil
  then show ?case by simp
next
  case (Cons s seq)
  from seq_typed_cases [OF assms, of s] show ?case
    by (auto simp: Cons.IH)
qed

lemma GetLeavesByHash_loop_eq:
  assumes "seq_typed t"
  shows "GetLeavesByHash_loop t m hs ret
           = Inr (ret @ concat (map (\<lambda>h. case m h of None \<Rightarrow> [] | Some seq \<Rightarrow> List.map_filter (leaf_at t) seq) hs))"
proof (induction hs arbitrary: ret)
  case Nil
  then show ?case by simp
next
  case (Cons h hs)
  then show ?case
    by (cases "m h") (simp_all add: GetLeavesByHash_seq_eq [OF assms])
qed

lemma set_map_filter: "set (List.map_filter f xs) = {y. \<exists>x \<in> set xs. f x = Some y}"
  by (induction xs) (auto split: option.splits)

text \<open>
  Claim C6, as amended. GetLeavesByHash returns, for each input hash in input order, the
  leaves at the sequence numbers recorded under that hash, in the order recorded; when
  the map from hashes agrees with the leaves stored, these are exactly the sequenced
  leaves whose Merkle hash is among the input hashes. The result is the same whether
  orderBySequence is true or false, and it is not sorted by leaf index in general.
\<close>

theorem GetLeavesByHash_order_ignored:
  assumes "seq_typed t" and "tx t (hashToSeqKey (treeID t)) = Some (VMap m)"
  shows "\<exists>ret. GetLeavesByHash leafHashes orderBySequence t = Inr ret
           \<and> ret = concat (map (\<lambda>h. case m h of None \<Rightarrow> [] | Some seq \<Rightarrow> List.map_filter (leaf_at t) seq) leafHashes)
           \<and> (index_agrees t m
                \<longrightarrow> set ret = {leaf. MerkleLeafHash leaf \<in> set leafHashes \<and> (\<exists>k. leaf_at t k = Some leaf)})"
proof -
  let ?g = "\<lambda>h. case m h of None \<Rightarrow> [] | Some seq \<Rightarrow> List.map_filter (leaf_at t) seq"
  let ?ret = "concat (map ?g leafHashes)"
  have r: "GetLeavesByHash leafHashes orderBySequence t = Inr ?ret"
    using assms(2) GetLeavesByHash_loop_eq [OF assms(1), of m leafHashes "[]"]
    by (simp add: GetLeavesByHash_def)
  have s: "set ?ret = {leaf. MerkleLeafHash leaf \<in> set leafHashes \<and> (\<exists>k. leaf_at t k = Some leaf)}"
    if a: "index_agrees t m"
  proof (intro set_eqI iffI)
    fix leaf assume "leaf \<in> set ?ret"
    then obtain h where h: "h \<in> set leafHashes" "leaf \<in> set (?g h)" by auto
    then obtain seq where seq: "m h = Some seq" "leaf \<in> set (List.map_filter (leaf_at t) seq)"
      by (cases "m h") auto
    then obtain k where k: "k \<in> set seq" "leaf_at t k = Some leaf"
      by (auto simp: set_map_filter)
    then have "MerkleLeafHash leaf = h" using a seq(1) unfolding index_agrees_def by blast
    then show "leaf \<in> {leaf. MerkleLeafHash leaf \<in> set leafHashes \<and> (\<exists>k. leaf_at t k = Some leaf)}"
      using h(1) k(2) by blast
  next
    fix leaf assume "leaf \<in> {leaf. MerkleLeafHash leaf \<in> set leafHashes \<and> (\<exists>k. leaf_at t k = Some leaf)}"
    then obtain k where k: "MerkleLeafHash leaf \<in> set leafHashes" "leaf_at t k = Some leaf" by blast
    then obtain seq where seq: "m (MerkleLeafHash leaf) = Some seq" "k \<in> set seq"
      using a unfolding index_agrees_def by blast
    then have "leaf \<in> set (?g (MerkleLeafHash leaf))"
      using k(2) by (auto simp: set_map_filter)
    then show "leaf \<in> set ?ret" using k(1) by auto
  qed
  show ?thesis using r s by blast
qed

text \<open>
  On the example transaction, asking for the hash of the leaf at index 2 and then for
  the hash of the leaf at index 0 returns them in that order, with either flag.
\<close>

lemma index_agrees_ex:
  "index_agrees ex_tx [replicate 32 10 \<mapsto> [0], replicate 32 11 \<mapsto> [2]]"
  by (auto simp: index_agrees_def leaf_at_ex ex_leaf_def split: if_splits)

theorem GetLeavesByHash_order_ignored_witness:
  "seq_typed ex_tx
   \<and> index_agrees ex_tx [replicate 32 10 \<mapsto> [0], replicate 32 11 \<mapsto> [2]]
   \<and> GetLeavesByHash [replicate 32 11, replicate 32 10] True ex_tx = Inr [ex_leaf 2 11 2, ex_leaf 1 10 0]
   \<and> GetLeavesByHash [replicate 32 11, replicate 32 10] False ex_tx = Inr [ex_leaf 2 11 2, ex_leaf 1 10 0]
   \<and> set [ex_leaf 2 11 2, ex_leaf 1 10 0]
       = {leaf. MerkleLeafHash leaf \<in> set [replicate 32 11, replicate 32 10] \<and> (\<exists>k. leaf_at ex_tx k = Some leaf)}"
proof -
  let ?m = "[replicate 32 (10::8 word) \<mapsto> [0::int], replicate 32 11 \<mapsto> [2]]"
  let ?hs = "[replicate 32 (11::8 word), replicate 32 10]"
  have h: "tx ex_tx (hashToSeqKey (treeID ex_tx)) = Some (VMap ?m)"
    by (simp add: ex_tx_def ex_store_def)
  have c: "concat (map (\<lambda>h. case ?m h of None \<Rightarrow> [] | Some seq \<Rightarrow> List.map_filter (leaf_at ex_tx) seq) ?hs)
             = [ex_leaf 2 11 2, ex_leaf 1 10 0]"
    by (simp add: leaf_at_ex)
  from GetLeavesByHash_order_ignored [OF seq_typed_ex h, of ?hs True] obtain ret where
    r: "GetLeavesByHash ?hs True ex_tx = Inr ret"
       "ret = concat (map (\<lambda>h. case ?m h of None \<Rightarrow> [] | Some seq \<Rightarrow> List.map_filter (leaf_at ex_tx) seq) ?hs)"
       "index_agrees ex_tx ?m
          \<longrightarrow> set ret = {leaf. MerkleLeafHash leaf \<in> set ?hs \<and> (\<exists>k. leaf_at ex_tx k = Some leaf)}"
    by blast
  have ret: "ret = [ex_leaf 2 11 2, ex_leaf 1 10 0]"
    using r(2) c by (rule trans)
  have s: "set ret = {leaf. MerkleLeafHash leaf \<in> set ?hs \<and> (\<exists>k. leaf_at ex_tx k = Some leaf)}"
    by (rule mp [OF r(3) index_agrees_ex])
  from GetLeavesByHash_order_ignored [OF seq_typed_ex h, of ?hs False] obtain ret' where
    r': "GetLeavesByHash ?hs False ex_tx = Inr ret'"
        "ret' = concat (map (\<lambda>h. case ?m h of None \<Rightarrow> [] | Some seq \<Rightarrow> List.map_filter (leaf_at ex_tx) seq) ?hs)"
    by blast
  have ret': "ret' = [ex_leaf 2 11 2, ex_leaf 1 10 0]"
    using r'(2) c by (rule trans)
  show ?thesis
    using seq_typed_ex index_agrees_ex r(1) r'(1) s unfolding ret ret'
    by (intro conjI)
qed

text \<open>
  Claim C6 as stated fails: with orderBySequence true the result of the same call is
  not sorted by leaf index.
\<close>

theorem GetLeavesByHash_unsorted_counterexample:
  "GetLeavesByHash [replicate 32 11, replicate 32 10] True ex_tx = Inr [ex_leaf 2 11 2, ex_leaf 1 10 0]
   \<and> \<not> sorted (map LeafIndex [ex_leaf 2 11 2, ex_leaf 1 10 0])"
  by (simp add: GetLeavesByHash_def ex_tx_def ex_store_def ex_leaf_def)

subsection \<open>UpdateSequencedLeaves\<close>

lemma count_of_update: "count_of (AList.update k v c) k' = (if k' = k then v else count_of c k')"
  by (simp add: count_of_def update_conv')

lemma count_of_delete: "count_of (AList.delete k c) k' = (if k' = k then 0 else count_of c k')"
  by (simp add: count_of_def delete_conv')

lemma counts_rel_empty: "counts_rel [] {#}"
  by (simp add: counts_rel_def count_of_def)

lemma counts_rel_incr:
  assumes "counts_rel c M"
  shows "counts_rel (AList.update k (count_of c k + 1) c) (add_mset k M)"
  using assms
  by (auto simp: counts_rel_def count_of_update update_conv')

lemma counts_rel_decr:
  assumes "counts_rel c M" and "0 < count_of c k"
  shows "counts_rel (if count_of (AList.update k (count_of c k - 1) c) k = 0
                     then AList.delete k (AList.update k (count_of c k - 1) c)
                     else AList.update k (count_of c k - 1) c) (M - {#k#})"
proof -
  have c: "0 < count M k" using assms by (simp add: counts_rel_def)
  show ?thesis
    using assms(1) c
    by (auto simp: counts_rel_def count_of_update count_of_delete update_conv' delete_conv'
        simp del: count_greater_zero_iff)
qed

lemma counts_rel_len:
  assumes "counts_rel c M"
  shows "length c = 0 \<longleftrightarrow> M = {#}"
proof (cases c)
  case Nil
  then have "\<forall>k. count M k = 0" using assms by (simp add: counts_rel_def count_of_def)
  then have "M = {#}" by (simp add: multiset_eq_iff)
  then show ?thesis using Nil by simp
next
  case (Cons p rest)
  obtain k n where p: "p = (k, n)" by (cases p)
  then have m: "map_of c k = Some n" using Cons by simp
  then have "0 < n" using assms unfolding counts_rel_def by blast
  then have "0 < count_of c k" using m by (simp add: count_of_def)
  then have "0 < count M k" using assms by (simp add: counts_rel_def)
  then have "M \<noteq> {#}" by auto
  then show ?thesis using Cons by simp
qed

lemma counts_rel_pos:
  assumes "counts_rel c M"
  shows "0 < count_of c k \<longleftrightarrow> k \<in># M"
  using assms by (simp add: counts_rel_def)

text \<open>
  The first loop, when every leaf passes the hash-size check: the counts become the
  multiset of the leaves' Merkle hashes, and the queue is not touched.
\<close>

lemma UpdateSequencedLeaves_insert_ok:
  assumes "\<forall>leaf \<in> set leaves. int (length (LeafIdentityHash leaf)) = hashSizeBytes t"
      and "tx t (hashToSeqKey (treeID t)) = Some (VMap m)"
      and "counts_rel c M"
  shows "\<exists>c' t'. UpdateSequencedLeaves_insert c leaves t = (Inr c', t')
           \<and> counts_rel c' (M + mset (map MerkleLeafHash leaves))
           \<and> treeID t' = treeID t
           \<and> tx t' (unseqKey (treeID t)) = tx t (unseqKey (treeID t))"
  using assms
proof (induction leaves arbitrary: c t m M)
  case Nil
  then show ?case by simp
next
  case (Cons leaf leaves)
  let ?mh = "MerkleLeafHash leaf"
  let ?c1 = "AList.update ?mh (count_of c ?mh + 1) c"
  let ?l = "(case m ?mh of None \<Rightarrow> [] | Some l0 \<Rightarrow> l0) @ [LeafIndex leaf]"
  let ?t2 = "t\<lparr>tx := (tx t)(seqLeafKey (treeID t) (LeafIndex leaf) \<mapsto> VLeaf leaf,
                             hashToSeqKey (treeID t) \<mapsto> VMap (m(?mh \<mapsto> ?l)))\<rparr>"
  have v: "int (length (LeafIdentityHash leaf)) = hashSizeBytes t"
    using Cons.prems(1) by simp
  have step: "UpdateSequencedLeaves_insert c (leaf # leaves) t = UpdateSequencedLeaves_insert ?c1 leaves ?t2"
    using v Cons.prems(2) by (simp add: Let_def)
  have a1: "\<forall>leaf \<in> set leaves. int (length (LeafIdentityHash leaf)) = hashSizeBytes ?t2"
    using Cons.prems(1) by simp
  have a2: "tx ?t2 (hashToSeqKey (treeID ?t2)) = Some (VMap (m(?mh \<mapsto> ?l)))"
    by simp
  have a3: "counts_rel ?c1 (add_mset ?mh M)"
    using counts_rel_incr [OF Cons.prems(3)] .
  from Cons.IH [OF a1 a2 a3] obtain c' t' where
    r: "UpdateSequencedLeaves_insert ?c1 leaves ?t2 = (Inr c', t')"
       "counts_rel c' (add_mset ?mh M + mset (map MerkleLeafHash leaves))"
       "treeID t' = treeID ?t2"
       "tx t' (unseqKey (treeID ?t2)) = tx ?t2 (unseqKey (treeID ?t2))"
    by blast
  show ?case
    using step r by simp
qed

text \<open>
  The second and third loops: the elements removed and the elements kept make up the
  queue, the kept ones in their order; the hashes of the removed elements together with
  the counts left are the counts at the start.
\<close>

lemma UpdateSequencedLeaves_scan_ok:
  assumes "counts_rel c M"
  shows "\<exists>toRemove kept left. UpdateSequencedLeaves_scan c q = (toRemove, kept, left)
           \<and> counts_rel left (M - mset (map MerkleLeafHash q))
           \<and> mset (map MerkleLeafHash toRemove) + (M - mset (map MerkleLeafHash q)) = M
           \<and> mset toRemove + mset kept = mset q
           \<and> subseq kept q"
  using assms
proof (induction q arbitrary: c M)
  case Nil
  then show ?case by simp
next
  case (Cons e rest)
  let ?mh = "MerkleLeafHash e"
  show ?case
  proof (cases "length c > 0")
    case False
    then have "M = {#}" using counts_rel_len [OF Cons.prems] by simp
    then show ?thesis using False Cons.prems by simp
  next
    case True
    show ?thesis
    proof (cases "0 < count_of c ?mh")
      case pos: True
      then have inM: "?mh \<in># M" using counts_rel_pos [OF Cons.prems] by simp
      let ?c1 = "AList.update ?mh (count_of c ?mh - 1) c"
      let ?c2 = "if count_of ?c1 ?mh = 0 then AList.delete ?mh ?c1 else ?c1"
      have rel: "counts_rel ?c2 (M - {#?mh#})"
        using counts_rel_decr [OF Cons.prems pos] .
      from Cons.IH [OF rel] obtain r k l where
        s: "UpdateSequencedLeaves_scan ?c2 rest = (r, k, l)"
           "counts_rel l (M - {#?mh#} - mset (map MerkleLeafHash rest))"
           "mset (map MerkleLeafHash r) + (M - {#?mh#} - mset (map MerkleLeafHash rest)) = M - {#?mh#}"
           "mset r + mset k = mset rest"
           "subseq k rest"
        by blast
      have res: "UpdateSequencedLeaves_scan c (e # rest) = (e # r, k, l)"
        using True pos s(1) by (simp add: Let_def)
      have d: "M - mset (map MerkleLeafHash (e # rest)) = M - {#?mh#} - mset (map MerkleLeafHash rest)"
        by simp
      have "add_mset ?mh (mset (map MerkleLeafHash r) + (M - {#?mh#} - mset (map MerkleLeafHash rest))) = M"
        using s(3) inM by simp
      then have sum: "mset (map MerkleLeafHash (e # r)) + (M - mset (map MerkleLeafHash (e # rest))) = M"
        unfolding d by simp
      show ?thesis
      proof (intro exI conjI)
        show "UpdateSequencedLeaves_scan c (e # rest) = (e # r, k, l)" by (rule res)
        show "counts_rel l (M - mset (map MerkleLeafHash (e # rest)))" unfolding d by (rule s(2))
        show "mset (map MerkleLeafHash (e # r)) + (M - mset (map MerkleLeafHash (e # rest))) = M"
          by (rule sum)
        show "mset (e # r) + mset k = mset (e # rest)" using s(4) by simp
        show "subseq k (e # rest)" using s(5) by (rule list_emb_Cons)
      qed
    next
      case npos: False
      then have notM: "?mh \<notin># M" using counts_rel_pos [OF Cons.prems] by simp
      from Cons.IH [OF Cons.prems] obtain r k l where
        s: "UpdateSequencedLeaves_scan c rest = (r, k, l)"
           "counts_rel l (M - mset (map MerkleLeafHash rest))"
           "mset (map MerkleLeafHash r) + (M - mset (map MerkleLeafHash rest)) = M"
           "mset r + mset k = mset rest"
           "subseq k rest"
        by blast
      have res: "UpdateSequencedLeaves_scan c (e # rest) = (r, e # k, l)"
        using True npos s(1) by (simp add: Let_def)
      have d: "M - mset (map MerkleLeafHash (e # rest)) = M - mset (map MerkleLeafHash rest)"
        using notM by (simp add: multiset_eq_iff not_in_iff)
      show ?thesis
      proof (intro exI conjI)
        show "UpdateSequencedLeaves_scan c (e # rest) = (r, e # k, l)" by (rule res)
        show "counts_rel l (M - mset (map MerkleLeafHash (e # rest)))" unfolding d by (rule s(2))
        show "mset (map MerkleLeafHash r) + (M - mset (map MerkleLeafHash (e # rest))) = M"
          unfolding d by (rule s(3))
        show "mset r + mset (e # k) = mset (e # rest)" using s(4) by simp
        show "subseq (e # k) (e # rest)" using s(5) by simp
      qed
    qed
  qed
qed

text \<open>The first loop, when some leaf fails the hash-size check.\<close>

lemma UpdateSequencedLeaves_insert_bad:
  assumes "\<exists>leaf \<in> set leaves. int (length (LeafIdentityHash leaf)) \<noteq> hashSizeBytes t"
      and "tx t (hashToSeqKey (treeID t)) = Some (VMap m)"
  shows "\<exists>got t'. UpdateSequencedLeaves_insert c leaves t
                    = (Inl (ErrIncorrectHashSize got (hashSizeBytes t)), t')
           \<and> got \<noteq> hashSizeBytes t
           \<and> tx t' (unseqKey (treeID t)) = tx t (unseqKey (treeID t))"
  using assms
proof (induction leaves arbitrary: c t m)
  case Nil
  then show ?case by simp
next
  case (Cons leaf leaves)
  show ?case
  proof (cases "int (length (LeafIdentityHash leaf)) = hashSizeBytes t")
    case False
    then show ?thesis by simp
  next
    case True
    let ?mh = "MerkleLeafHash leaf"
    let ?c1 = "AList.update ?mh (count_of c ?mh + 1) c"
    let ?l = "(case m ?mh of None \<Rightarrow> [] | Some l0 \<Rightarrow> l0) @ [LeafIndex leaf]"
    let ?t2 = "t\<lparr>tx := (tx t)(seqLeafKey (treeID t) (LeafIndex leaf) \<mapsto> VLeaf leaf,
                               hashToSeqKey (treeID t) \<mapsto> VMap (m(?mh \<mapsto> ?l)))\<rparr>"
    have step: "UpdateSequencedLeaves_insert c (leaf # leaves) t
                  = UpdateSequencedLeaves_insert ?c1 leaves ?t2"
      using True Cons.prems(2) by (simp add: Let_def)
    have a1: "\<exists>leaf \<in> set leaves. int (length (LeafIdentityHash leaf)) \<noteq> hashSizeBytes ?t2"
      using Cons.prems(1) True by simp
    have a2: "tx ?t2 (hashToSeqKey (treeID ?t2)) = Some (VMap (m(?mh \<mapsto> ?l)))"
      by simp
    from Cons.IH [OF a1 a2, of ?c1] obtain got t' where
      r: "UpdateSequencedLeaves_insert ?c1 leaves ?t2
            = (Inl (ErrIncorrectHashSize got (hashSizeBytes ?t2)), t')"
         "got \<noteq> hashSizeBytes ?t2"
         "tx t' (unseqKey (treeID ?t2)) = tx ?t2 (unseqKey (treeID ?t2))"
      by blast
    show ?thesis using step r by simp
  qed
qed

text \<open>
  Claim C3, as amended. On a transaction whose store holds the queue \<open>q\<close> and the hash
  map, UpdateSequencedLeaves
  \<^item> returns a hash-size error and leaves the queue as it was when some leaf's identity
    hash has not the hasher's size, whatever the queue holds;
  \<^item> otherwise returns the integrity error "attempted to update n unknown leaves" whenever
    the leaves do not each have a matching queue entry of their own, entries matching by
    Merkle leaf hash and counted with multiplicity;
  \<^item> otherwise succeeds, and the new queue is the old one, in its order, without exactly
    one matching entry per leaf.
\<close>

theorem UpdateSequencedLeaves_queue:
  assumes "tx t (hashToSeqKey (treeID t)) = Some (VMap m)"
      and "tx t (unseqKey (treeID t)) = Some (VList q)"
  shows "\<exists>e t' q'. UpdateSequencedLeaves leaves t = (e, t')
           \<and> tx t' (unseqKey (treeID t)) = Some (VList q')
           \<and> ((\<exists>leaf \<in> set leaves. int (length (LeafIdentityHash leaf)) \<noteq> hashSizeBytes t)
                \<longrightarrow> (\<exists>got. e = Some (ErrIncorrectHashSize got (hashSizeBytes t))) \<and> q' = q)
           \<and> ((\<forall>leaf \<in> set leaves. int (length (LeafIdentityHash leaf)) = hashSizeBytes t)
                \<and> \<not> mset (map MerkleLeafHash leaves) \<subseteq># mset (map MerkleLeafHash q)
                \<longrightarrow> (\<exists>n. 0 < n \<and> e = Some (ErrUnknownLeaves n)))
           \<and> ((\<forall>leaf \<in> set leaves. int (length (LeafIdentityHash leaf)) = hashSizeBytes t)
                \<and> mset (map MerkleLeafHash leaves) \<subseteq># mset (map MerkleLeafHash q)
                \<longrightarrow> e = None \<and> subseq q' q
                    \<and> (\<exists>removed. mset q = mset removed + mset q'
                          \<and> mset (map MerkleLeafHash removed) = mset (map MerkleLeafHash leaves)))"
proof (cases "\<forall>leaf \<in> set leaves. int (length (LeafIdentityHash leaf)) = hashSizeBytes t")
  case False
  then have b: "\<exists>leaf \<in> set leaves. int (length (LeafIdentityHash leaf)) \<noteq> hashSizeBytes t"
    by blast
  from UpdateSequencedLeaves_insert_bad [OF b assms(1), of "[]"] obtain got t' where
    r: "UpdateSequencedLeaves_insert [] leaves t = (Inl (ErrIncorrectHashSize got (hashSizeBytes t)), t')"
       "tx t' (unseqKey (treeID t)) = tx t (unseqKey (treeID t))"
    by blast
  have "UpdateSequencedLeaves leaves t = (Some (ErrIncorrectHashSize got (hashSizeBytes t)), t')"
    using r(1) by (simp add: UpdateSequencedLeaves_def)
  then show ?thesis using False r(2) assms(2) by auto
next
  case valid: True
  let ?L = "mset (map MerkleLeafHash leaves)"
  let ?Q = "mset (map MerkleLeafHash q)"
  from UpdateSequencedLeaves_insert_ok [OF valid assms(1) counts_rel_empty]
  obtain c t1 where
    i: "UpdateSequencedLeaves_insert [] leaves t = (Inr c, t1)"
       "counts_rel c ?L" "treeID t1 = treeID t"
       "tx t1 (unseqKey (treeID t)) = tx t (unseqKey (treeID t))"
    by auto
  from UpdateSequencedLeaves_scan_ok [OF i(2), of q]
  obtain r k l where
    s: "UpdateSequencedLeaves_scan c q = (r, k, l)"
       "counts_rel l (?L - ?Q)"
       "mset (map MerkleLeafHash r) + (?L - ?Q) = ?L"
       "mset r + mset k = mset q"
       "subseq k q"
    by blast
  let ?e = "if length l \<noteq> 0 then Some (ErrUnknownLeaves (int (length l))) else None"
  let ?t' = "t1\<lparr>tx := (tx t1)(unseqKey (treeID t1) \<mapsto> VList k)\<rparr>"
  have res: "UpdateSequencedLeaves leaves t = (?e, ?t')"
    using i(1) i(3) i(4) assms(2) s(1) by (simp add: UpdateSequencedLeaves_def)
  have q': "tx ?t' (unseqKey (treeID t)) = Some (VList k)"
    using i(3) by simp
  have len: "length l = 0 \<longleftrightarrow> ?L \<subseteq># ?Q"
    using counts_rel_len [OF s(2)] by (simp add: Diff_eq_empty_iff_mset)
  have bad: "\<exists>n. 0 < n \<and> ?e = Some (ErrUnknownLeaves n)" if "\<not> ?L \<subseteq># ?Q"
    using that len by auto
  have good: "?e = None \<and> subseq k q
              \<and> (\<exists>removed. mset q = mset removed + mset k
                    \<and> mset (map MerkleLeafHash removed) = ?L)" if sub: "?L \<subseteq># ?Q"
  proof -
    have "?L - ?Q = {#}" using sub by (simp add: Diff_eq_empty_iff_mset)
    then have "mset (map MerkleLeafHash r) = ?L" using s(3) by simp
    then show ?thesis using len sub s(4) s(5) by (metis (no_types, lifting))
  qed
  show ?thesis
    using res q' bad good valid by blast
qed

lemma ex_tx_maps:
  "tx ex_tx (hashToSeqKey (treeID ex_tx)) = Some (VMap [replicate 32 10 \<mapsto> [0], replicate 32 11 \<mapsto> [2]])"
  "tx ex_tx (unseqKey (treeID ex_tx)) = Some (VList [ex_leaf 1 10 (- 1)])"
  by (simp_all add: ex_tx_def ex_store_def)

text \<open>
  On the example transaction, whose queue holds one copy of leaf 1: sequencing leaf 1
  succeeds and empties the queue; sequencing leaf 3, which was never queued, is an
  integrity error; sequencing a leaf with a one-byte identity hash is a hash-size error.
\<close>

theorem UpdateSequencedLeaves_queue_witness:
  "fst (UpdateSequencedLeaves [ex_leaf 1 10 1] ex_tx) = None
   \<and> tx (snd (UpdateSequencedLeaves [ex_leaf 1 10 1] ex_tx)) (unseqKey 17) = Some (VList [])
   \<and> (\<exists>n. 0 < n \<and> fst (UpdateSequencedLeaves [ex_leaf 3 12 1] ex_tx) = Some (ErrUnknownLeaves n))
   \<and> (\<exists>got. fst (UpdateSequencedLeaves [(ex_leaf 1 10 1)\<lparr>LeafIdentityHash := [7]\<rparr>] ex_tx)
               = Some (ErrIncorrectHashSize got 32))"
proof -
  have i: "treeID ex_tx = 17" "hashSizeBytes ex_tx = 32" by (simp_all add: ex_tx_def)
  have good: "(\<forall>leaf \<in> set [ex_leaf 1 10 1]. int (length (LeafIdentityHash leaf)) = hashSizeBytes ex_tx)
              \<and> mset (map MerkleLeafHash [ex_leaf 1 10 1]) \<subseteq># mset (map MerkleLeafHash [ex_leaf 1 10 (- 1)])"
    by (simp add: ex_leaf_def i)
  have unknown: "(\<forall>leaf \<in> set [ex_leaf 3 12 1]. int (length (LeafIdentityHash leaf)) = hashSizeBytes ex_tx)
              \<and> \<not> mset (map MerkleLeafHash [ex_leaf 3 12 1]) \<subseteq># mset (map MerkleLeafHash [ex_leaf 1 10 (- 1)])"
    by (simp add: ex_leaf_def i)
  have short: "\<exists>leaf \<in> set [(ex_leaf 1 10 1)\<lparr>LeafIdentityHash := [7]\<rparr>].
                 int (length (LeafIdentityHash leaf)) \<noteq> hashSizeBytes ex_tx"
    by (simp add: i)
  from UpdateSequencedLeaves_queue [OF ex_tx_maps, of "[ex_leaf 1 10 1]"] good
  obtain e t' q' removed where
    r: "UpdateSequencedLeaves [ex_leaf 1 10 1] ex_tx = (e, t')"
       "tx t' (unseqKey (treeID ex_tx)) = Some (VList q')" "e = None"
       "mset [ex_leaf 1 10 (- 1)] = mset removed + mset q'"
       "mset (map MerkleLeafHash removed) = mset (map MerkleLeafHash [ex_leaf 1 10 1])"
    by blast
  have "size (mset (map MerkleLeafHash removed)) = 1" using r(5) by simp
  then have "length removed = 1" by simp
  moreover have "size (mset [ex_leaf 1 10 (- 1)]) = size (mset removed + mset q')"
    using r(4) by simp
  ultimately have "q' = []" by simp
  then have c1: "fst (UpdateSequencedLeaves [ex_leaf 1 10 1] ex_tx) = None
                 \<and> tx (snd (UpdateSequencedLeaves [ex_leaf 1 10 1] ex_tx)) (unseqKey 17) = Some (VList [])"
    using r(1) r(2) r(3) i by simp
  from UpdateSequencedLeaves_queue [OF ex_tx_maps, of "[ex_leaf 3 12 1]"] unknown
  have c2: "\<exists>n. 0 < n \<and> fst (UpdateSequencedLeaves [ex_leaf 3 12 1] ex_tx) = Some (ErrUnknownLeaves n)"
    by (metis fst_conv)
  from UpdateSequencedLeaves_queue [OF ex_tx_maps, of "[(ex_leaf 1 10 1)\<lparr>LeafIdentityHash := [7]\<rparr>]"] short
  have c3: "\<exists>got. fst (UpdateSequencedLeaves [(ex_leaf 1 10 1)\<lparr>LeafIdentityHash := [7]\<rparr>] ex_tx)
               = Some (ErrIncorrectHashSize got 32)"
    unfolding i by (metis fst_conv)
  show ?thesis using c1 c2 c3 by blast
qed

text \<open>
  Claim C3 as stated fails. The only leaf of the argument has a matching queue entry
  (the queued copy of leaf 1 has its Merkle hash), yet the call does not succeed: the
  identity hash has one byte, the hash-size error is returned and no queue entry is
  removed.
\<close>

theorem UpdateSequencedLeaves_hash_size_counterexample:
  "tx ex_tx (unseqKey 17) = Some (VList [ex_leaf 1 10 (- 1)])
   \<and> MerkleLeafHash ((ex_leaf 1 10 1)\<lparr>LeafIdentityHash := [7]\<rparr>) = MerkleLeafHash (ex_leaf 1 10 (- 1))
   \<and> UpdateSequencedLeaves [(ex_leaf 1 10 1)\<lparr>LeafIdentityHash := [7]\<rparr>] ex_tx
       = (Some (ErrIncorrectHashSize 1 32), ex_tx)"
  by (simp add: UpdateSequencedLeaves_def ex_tx_def ex_store_def ex_leaf_def)

end
